theory Spec2Isabelle
  imports Complex_Main
begin

section \<open>NextWord: token distribution and selection engine\<close>

text \<open>
  A shallow embedding of \<^verbatim>\<open>adapter_hf.py\<close> and of the request handlers of
  \<^verbatim>\<open>main.py\<close>.

  Conventions of the embedding.
  \<^item> A Python \<^verbatim>\<open>str\<close> is a list of Unicode code points (\<open>ustr\<close>), so that \<open>length\<close>
    is Python's \<^verbatim>\<open>len\<close>; \<open>ascii\<close> turns a literal of the source into one.
  \<^item> Token ids and tensor indices are natural numbers (a tokenizer yields no negative id);
    the request's \<^verbatim>\<open>top_k\<close> is an \<open>int\<close>.
  \<^item> Tensor entries (float32) and Python floats are idealised as \<open>real\<close>: rounding,
    infinities and NaN are not modelled.
  \<^item> An exception is a value \<open>Inl e\<close> of a sum type.
  \<^item> The tokenizer and the language model are fields of the record \<open>adapter\<close>; the
    routines of the tensor library whose result the library leaves partly open (the
    order of equal elements, the random draw) are fields of the record \<open>torch\<close>.
  \<^item> A handler is a function of the posted body; the route as it is served puts the
    validation of the body against the request model in front of the handler.
\<close>

subsection \<open>Strings\<close>

type_synonym ustr = "nat list"

definition ascii :: "string \<Rightarrow> ustr" where
  "ascii s = map of_char s"

subsection \<open>Exceptions\<close>

datatype py_error =
    ValueError ustr
  | IndexError ustr
  | RuntimeError ustr

text \<open>\<^verbatim>\<open>str(e)\<close> of an exception: its message.\<close>

fun str_of_error :: "py_error \<Rightarrow> ustr" where
  "str_of_error (ValueError m) = m"
| "str_of_error (IndexError m) = m"
| "str_of_error (RuntimeError m) = m"

text \<open>\<^verbatim>\<open>isinstance(e, ValueError)\<close>, which decides the \<^verbatim>\<open>except\<close> clause taken.\<close>

fun is_ValueError :: "py_error \<Rightarrow> bool" where
  "is_ValueError (ValueError m) = True"
| "is_ValueError (IndexError m) = False"
| "is_ValueError (RuntimeError m) = False"

subsection \<open>The external collaborators\<close>

record adapter =
  model_name :: ustr
  tok_encode :: "ustr \<Rightarrow> nat list"
  tok_decode :: "nat \<Rightarrow> ustr"
  tok_token_string :: "nat \<Rightarrow> ustr"
  eos_token_id :: "nat option"
  vocab_size :: nat
  model_last_logits :: "nat list \<Rightarrow> real list"

text \<open>
  \<open>tok_encode\<close> is \<^verbatim>\<open>tokenizer.encode(text, add_special_tokens=False)\<close>, \<open>tok_decode\<close> is
  \<^verbatim>\<open>tokenizer.decode([id], clean_up_tokenization_spaces=False)\<close>, \<open>tok_token_string\<close> is
  \<^verbatim>\<open>convert_tokens_to_string([convert_ids_to_tokens(id)])\<close> and \<open>model_last_logits\<close> is
  \<^verbatim>\<open>self.model(input_ids).logits[0, -1, :]\<close>, the Scorer.
\<close>

subsection \<open>Constants\<close>

text \<open>The class constants of \<^verbatim>\<open>HuggingFaceAdapter\<close>.\<close>

definition CONTEXT_CAP_TOKENS :: nat where "CONTEXT_CAP_TOKENS = 512"
definition HF_TOP_K_MIN :: int where "HF_TOP_K_MIN = 5"
definition HF_TOP_K_MAX :: int where "HF_TOP_K_MAX = 30"

text \<open>The module constants of \<^verbatim>\<open>main.py\<close>.\<close>

definition TOP_K_MIN :: int where "TOP_K_MIN = 5"
definition TOP_K_MAX :: int where "TOP_K_MAX = 30"
definition MAX_PAYLOAD_SIZE :: nat where "MAX_PAYLOAD_SIZE = 50000"
definition CONTRACT_VERSION :: ustr where "CONTRACT_VERSION = ascii ''v1''"

subsection \<open>make\_token\_display\<close>

text \<open>
  \<^verbatim>\<open>str.isspace\<close>: the string is not empty and each character is whitespace. The
  characters Python counts as whitespace are those of its Unicode table, written out.
\<close>

definition is_whitespace :: "nat \<Rightarrow> bool" where
  "is_whitespace c \<longleftrightarrow>
     (9 \<le> c \<and> c \<le> 13) \<or> (28 \<le> c \<and> c \<le> 32) \<or> c = 0x85 \<or> c = 0xA0 \<or> c = 0x1680 \<or>
     (0x2000 \<le> c \<and> c \<le> 0x200A) \<or> c = 0x2028 \<or> c = 0x2029 \<or> c = 0x202F \<or>
     c = 0x205F \<or> c = 0x3000"

definition isspace :: "ustr \<Rightarrow> bool" where
  "isspace s \<longleftrightarrow> s \<noteq> [] \<and> list_all is_whitespace s"

text \<open>\<^verbatim>\<open>unicodedata.category(char) == 'Cc'\<close>: the C0 and C1 controls.\<close>

definition is_Cc :: "nat \<Rightarrow> bool" where
  "is_Cc c \<longleftrightarrow> c \<le> 0x1F \<or> (0x7F \<le> c \<and> c \<le> 0x9F)"

text \<open>The decimal digits of \<^verbatim>\<open>f'{n}'\<close> and the upper-case hexadecimal digits of \<^verbatim>\<open>f'{n:04X}'\<close>.\<close>

fun str_nat :: "nat \<Rightarrow> ustr" where
  "str_nat n = (if n < 10 then [48 + n] else str_nat (n div 10) @ [48 + n mod 10])"

declare str_nat.simps [simp del]

definition hex_digit :: "nat \<Rightarrow> nat" where
  "hex_digit d = (if d < 10 then 48 + d else 55 + d)"

fun hex_upper :: "nat \<Rightarrow> ustr" where
  "hex_upper n = (if n < 16 then [hex_digit n] else hex_upper (n div 16) @ [hex_digit (n mod 16)])"

declare hex_upper.simps [simp del]

definition format_04X :: "nat \<Rightarrow> ustr" where
  "format_04X n = replicate (4 - length (hex_upper n)) 48 @ hex_upper n"

text \<open>
  The body of the loop over the characters: what one character appends to
  \<^verbatim>\<open>display_chars\<close>. The symbols are U+23CE, U+21E5, U+240D, U+27E6, U+27E7 and U+2420;
  92 is the backslash.
\<close>

definition display_char :: "nat \<Rightarrow> ustr" where
  "display_char c =
     (if is_Cc c then
        (if c = 10 then [0x23CE, 92, 110]
         else if c = 9 then [0x21E5, 92, 116]
         else if c = 13 then [0x240D, 92, 114]
         else [0x27E6, 85, 43] @ format_04X c @ [0x27E7])
      else if c = 32 then [0x2420]
      else [c])"

definition make_token_display :: "ustr \<Rightarrow> ustr" where
  "make_token_display raw_text =
     (if raw_text = [] then raw_text
      else if isspace raw_text then
        (let space_count = count_list raw_text 32 in
         if space_count = length raw_text then
           (if space_count = 1 then [0x2420] else [0x2420, 0xD7] @ str_nat space_count)
         else [0x2420, 0xD7] @ str_nat (length raw_text))
      else concat (map display_char raw_text))"

subsection \<open>tokenize\<close>

text \<open>Python's \<^verbatim>\<open>xs[-n:]\<close> for \<open>n > 0\<close>: the last \<open>n\<close> elements, all of them when there are fewer.\<close>

definition py_last_n :: "nat \<Rightarrow> 'a list \<Rightarrow> 'a list" where
  "py_last_n n xs = drop (length xs - n) xs"

text \<open>The result \<^verbatim>\<open>{"ids": ids, "tokens": tokens}\<close> is the pair \<open>(ids, tokens)\<close>.\<close>

definition tokenize :: "adapter \<Rightarrow> ustr \<Rightarrow> nat list \<times> ustr list" where
  "tokenize ad text =
     (let encoded = tok_encode ad text;
          ids = (if length encoded > CONTEXT_CAP_TOKENS
                 then py_last_n CONTEXT_CAP_TOKENS encoded else encoded);
          tokens = map (tok_token_string ad) ids
      in (ids, tokens))"

subsection \<open>forward\_last\<close>

text \<open>
  \<^verbatim>\<open>logits[i] -= d\<close> on a tensor: an index beyond the tensor raises \<^verbatim>\<open>IndexError\<close>.
\<close>

definition tensor_sub_at :: "real list \<Rightarrow> nat \<Rightarrow> real \<Rightarrow> py_error + real list" where
  "tensor_sub_at logits i d =
     (if i < length logits then Inr (logits[i := logits ! i - d])
      else Inl (IndexError (ascii ''index out of bounds'')))"

text \<open>
  \<open>forward_last\<close> returns its result together with the list of id sequences the model
  was run on: the calls of the Scorer it made.
\<close>

definition forward_last :: "adapter \<Rightarrow> nat list \<Rightarrow> bool \<Rightarrow> (py_error + real list) \<times> nat list list" where
  "forward_last ad ids soften_newline_eot =
     (let logits = model_last_logits ad ids in
      (if soften_newline_eot then
         (let newline_encoded = tok_encode ad [10];
              newline_id = (case newline_encoded of [] \<Rightarrow> None | n # _ \<Rightarrow> Some n);
              eos_id = eos_token_id ad
          in case (case newline_id of None \<Rightarrow> Inr logits
                   | Some n \<Rightarrow> tensor_sub_at logits n 2) of
               Inl e \<Rightarrow> Inl e
             | Inr logits1 \<Rightarrow>
                 (case eos_id of None \<Rightarrow> Inr logits1
                  | Some e \<Rightarrow> tensor_sub_at logits1 e 2))
       else Inr logits,
       [ids]))"

subsection \<open>The tensor library\<close>

text \<open>
  \<^verbatim>\<open>torch.log_softmax\<close>, \<^verbatim>\<open>torch.softmax\<close> and \<^verbatim>\<open>torch.cumsum\<close> over the reals.
\<close>

definition log_softmax :: "real list \<Rightarrow> real list" where
  "log_softmax xs = map (\<lambda>x. x - ln (sum_list (map exp xs))) xs"

definition softmax :: "real list \<Rightarrow> real list" where
  "softmax xs = map (\<lambda>x. exp x / sum_list (map exp xs)) xs"

fun cumsum_from :: "real \<Rightarrow> real list \<Rightarrow> real list" where
  "cumsum_from acc [] = []"
| "cumsum_from acc (x # xs) = (acc + x) # cumsum_from (acc + x) xs"

definition cumsum :: "real list \<Rightarrow> real list" where
  "cumsum xs = cumsum_from 0 xs"

text \<open>
  \<^verbatim>\<open>torch.argmax\<close>: the index of the first maximal value; an empty tensor raises.
\<close>

definition torch_argmax :: "real list \<Rightarrow> py_error + nat" where
  "torch_argmax xs =
     (if xs = [] then Inl (RuntimeError (ascii ''argmax of an empty tensor''))
      else Inr (length (takeWhile (\<lambda>v. v \<noteq> Max (set xs)) xs)))"

text \<open>
  The library documents \<^verbatim>\<open>torch.topk\<close> and \<^verbatim>\<open>torch.sort\<close> up to the order of equal
  elements, and \<^verbatim>\<open>torch.multinomial\<close> draws at random. The three are parameters: a
  selection and a sort return (value, index) pairs, the draw returns an index.
\<close>

record torch =
  topk_select :: "real list \<Rightarrow> nat \<Rightarrow> (real \<times> nat) list"
  sort_descending :: "real list \<Rightarrow> (real \<times> nat) list"
  multinomial_draw :: "real list \<Rightarrow> nat"

text \<open>
  What the library promises of \<^verbatim>\<open>torch.topk(xs, k)\<close> (largest, sorted) for \<open>k\<close> within
  the tensor: \<open>k\<close> pairs, of distinct indices, each the value at its index, in
  descending order of value, and no entry left out is larger than one selected.
\<close>

definition topk_select_ok :: "(real list \<Rightarrow> nat \<Rightarrow> (real \<times> nat) list) \<Rightarrow> bool" where
  "topk_select_ok sel \<longleftrightarrow>
     (\<forall>xs k. k \<le> length xs \<longrightarrow>
        length (sel xs k) = k \<and>
        distinct (map snd (sel xs k)) \<and>
        (\<forall>p \<in> set (sel xs k). snd p < length xs \<and> fst p = xs ! snd p) \<and>
        sorted_wrt (\<lambda>a b. a \<ge> b) (map fst (sel xs k)) \<and>
        (\<forall>j < length xs. j \<notin> set (map snd (sel xs k)) \<longrightarrow>
           (\<forall>p \<in> set (sel xs k). xs ! j \<le> fst p)))"

text \<open>\<^verbatim>\<open>torch.topk\<close> raises when \<open>k\<close> exceeds the size of the tensor.\<close>

definition torch_topk :: "torch \<Rightarrow> real list \<Rightarrow> nat \<Rightarrow> py_error + (real \<times> nat) list" where
  "torch_topk T xs k =
     (if k > length xs then Inl (RuntimeError (ascii ''selected index k out of range''))
      else Inr (topk_select T xs k))"

text \<open>\<^verbatim>\<open>torch.multinomial\<close> returns an index of the tensor, or raises.\<close>

definition torch_multinomial :: "torch \<Rightarrow> real list \<Rightarrow> py_error + nat" where
  "torch_multinomial T probs =
     (let i = multinomial_draw T probs in
      if i < length probs then Inr i
      else Inl (RuntimeError (ascii ''invalid multinomial distribution'')))"

text \<open>
  Two selections that meet the promise: a stable sort of the indexed values, which puts
  the lower index first among equal values, and the same on the reversed tensor, which
  puts the higher index first.
\<close>

definition indexed :: "real list \<Rightarrow> (real \<times> nat) list" where
  "indexed xs = zip xs [0..<length xs]"

definition sort_low_first :: "real list \<Rightarrow> (real \<times> nat) list" where
  "sort_low_first xs = sort_key (\<lambda>p. - fst p) (indexed xs)"

definition sort_high_first :: "real list \<Rightarrow> (real \<times> nat) list" where
  "sort_high_first xs = sort_key (\<lambda>p. - fst p) (rev (indexed xs))"

definition torch_low_first :: "(real list \<Rightarrow> nat) \<Rightarrow> torch" where
  "torch_low_first draw =
     \<lparr>topk_select = (\<lambda>xs k. take k (sort_low_first xs)),
      sort_descending = sort_low_first,
      multinomial_draw = draw\<rparr>"

definition torch_high_first :: "(real list \<Rightarrow> nat) \<Rightarrow> torch" where
  "torch_high_first draw =
     \<lparr>topk_select = (\<lambda>xs k. take k (sort_high_first xs)),
      sort_descending = sort_high_first,
      multinomial_draw = draw\<rparr>"

subsection \<open>topk\<close>

text \<open>
  A token dictionary. \<open>topk\<close> builds it without the key \<^verbatim>\<open>surprisal\<close> (\<open>None\<close>), \<open>choose\<close>
  with it.
\<close>

record token =
  token_id :: nat
  token_text :: ustr
  token_text_raw :: ustr
  token_text_display :: ustr
  prob :: real
  logprob :: real
  surprisal :: "real option"

text \<open>\<^verbatim>\<open>xs.sort(key=f, reverse=True)\<close>: descending, equal keys keep their order.\<close>

definition py_sort_reverse :: "('a \<Rightarrow> real) \<Rightarrow> 'a list \<Rightarrow> 'a list" where
  "py_sort_reverse f xs = sort_key (\<lambda>x. - f x) xs"

text \<open>The body of the loop of \<open>topk\<close>: the dictionary of one selected entry.\<close>

definition topk_entry :: "adapter \<Rightarrow> real \<times> nat \<Rightarrow> token" where
  "topk_entry ad p =
     (let token_id = snd p;
          raw = tok_decode ad token_id;
          display = make_token_display raw;
          logprob = fst p;
          prob = exp (fst p)
      in \<lparr>token_id = token_id, token_text = raw, token_text_raw = raw,
          token_text_display = display, prob = prob, logprob = logprob,
          surprisal = None\<rparr>)"

definition topk :: "torch \<Rightarrow> adapter \<Rightarrow> real list \<Rightarrow> int \<Rightarrow> py_error + token list" where
  "topk T ad logits k0 =
     (let k = max HF_TOP_K_MIN (min HF_TOP_K_MAX k0);
          log_probs = log_softmax logits
      in case torch_topk T log_probs (nat k) of
           Inl e \<Rightarrow> Inl e
         | Inr selected \<Rightarrow> Inr (py_sort_reverse prob (map (topk_entry ad) selected)))"

subsection \<open>choose\<close>

text \<open>
  Lines 289 to 305 of \<^verbatim>\<open>adapter_hf.py\<close>, the nucleus filter. \<open>scatter\<close> is the assignment
  \<^verbatim>\<open>filtered_probs[sorted_indices[mask]] = sorted_probs[mask]\<close>; \<^verbatim>\<open>mask[0] = True\<close> on an
  empty mask raises.
\<close>

fun scatter :: "real list \<Rightarrow> (real \<times> nat) list \<Rightarrow> real list" where
  "scatter out [] = out"
| "scatter out (p # ps) = scatter (out[snd p := fst p]) ps"

definition top_p_filter :: "torch \<Rightarrow> real list \<Rightarrow> real \<Rightarrow> py_error + real list" where
  "top_p_filter T probs top_p =
     (let sorted_pairs = sort_descending T probs;
          sorted_probs = map fst sorted_pairs;
          cumsum_probs = cumsum sorted_probs;
          mask = map (\<lambda>c. c \<le> top_p) cumsum_probs
      in case (if \<not> list_ex (\<lambda>b. b) mask
               then (if mask = [] then Inl (IndexError (ascii ''index 0 is out of bounds''))
                     else Inr (mask[0 := True]))
               else Inr mask) of
           Inl e \<Rightarrow> Inl e
         | Inr mask1 \<Rightarrow>
             (let kept = map fst (filter snd (zip sorted_pairs mask1));
                  filtered_probs = scatter (replicate (length probs) 0) kept;
                  total = sum_list filtered_probs
              in Inr (map (\<lambda>x. x / total) filtered_probs)))"

text \<open>The dictionary \<open>choose\<close> returns for a chosen index.\<close>

definition chosen_entry :: "adapter \<Rightarrow> nat \<Rightarrow> real \<Rightarrow> real \<Rightarrow> token" where
  "chosen_entry ad chosen_idx p lp =
     (let raw = tok_decode ad chosen_idx;
          display = make_token_display raw
      in \<lparr>token_id = chosen_idx, token_text = raw, token_text_raw = raw,
          token_text_display = display, prob = p, logprob = lp,
          surprisal = Some (- ln (p + 1 / 10 ^ 12))\<rparr>)"

definition choose_token ::
  "torch \<Rightarrow> adapter \<Rightarrow> real list \<Rightarrow> ustr \<Rightarrow> int \<Rightarrow> real option \<Rightarrow> real option
     \<Rightarrow> py_error + token" where
  "choose_token T ad logits mode k0 temperature top_p =
     (let k = max HF_TOP_K_MIN (min HF_TOP_K_MAX k0);
          log_probs = log_softmax logits
      in if mode = ascii ''argmax'' then
           (case torch_argmax log_probs of
              Inl e \<Rightarrow> Inl e
            | Inr chosen_idx \<Rightarrow>
                (let chosen_logprob = log_probs ! chosen_idx
                 in Inr (chosen_entry ad chosen_idx (exp chosen_logprob) chosen_logprob)))
         else if mode = ascii ''stochastic'' then
           (let t = (case temperature of None \<Rightarrow> 1 | Some t \<Rightarrow> if t > 0 then t else 1);
                logits_scaled = map (\<lambda>x. x / t) logits;
                probs = softmax logits_scaled
            in case (case top_p of
                       None \<Rightarrow> Inr probs
                     | Some p \<Rightarrow> if p < 1 then top_p_filter T probs p else Inr probs) of
                 Inl e \<Rightarrow> Inl e
               | Inr probs1 \<Rightarrow>
                   (case torch_multinomial T probs1 of
                      Inl e \<Rightarrow> Inl e
                    | Inr chosen_idx \<Rightarrow>
                        (let chosen_prob = probs1 ! chosen_idx;
                             chosen_logprob = ln (probs1 ! chosen_idx + 1 / 10 ^ 10)
                         in Inr (chosen_entry ad chosen_idx chosen_prob chosen_logprob))))
         else Inl (ValueError (ascii ''Unsupported mode: '' @ mode)))"

subsection \<open>The request handlers of main.py\<close>

record next_dist_request =
  nd_context_text :: ustr
  nd_top_k :: int

record step_request =
  context_text :: ustr
  top_k :: int
  mode :: ustr
  temperature :: "real option"
  top_p :: "real option"
  soften_newline_eot :: "bool option"

text \<open>
  \<^verbatim>\<open>TokenInfoModel\<close> and \<^verbatim>\<open>ChosenTokenModel\<close> have the same four fields; building one
  from a dictionary drops the other keys.
\<close>

record token_model =
  tm_token_id :: nat
  tm_token_text :: ustr
  tm_prob :: real
  tm_logprob :: real

definition TokenInfoModel :: "token \<Rightarrow> token_model" where
  "TokenInfoModel t =
     \<lparr>tm_token_id = token_id t, tm_token_text = token_text t, tm_prob = prob t,
      tm_logprob = logprob t\<rparr>"

record model_info =
  provider :: ustr
  mi_model_name :: ustr
  mi_vocab_size :: nat

record next_dist_response =
  contract_version :: ustr
  context_len_tokens :: nat
  resp_topk :: "token_model list"
  coverage_topk :: real
  last_token_id :: "nat option"
  last_token_text :: "ustr option"
  resp_model_info :: model_info

record step_response = next_dist_response +
  chosen :: token_model
  append_text :: ustr
  used_top_k :: int

text \<open>
  A handler returns either a \<^verbatim>\<open>JSONResponse\<close> with a status code and a dictionary, or
  its response model.
\<close>

datatype 'a http_response =
    JSONResponse nat "(string \<times> ustr) list"
  | Response 'a

definition error_content :: "ustr \<Rightarrow> ustr \<Rightarrow> (string \<times> ustr) list" where
  "error_content message hint =
     [(''status'', ascii ''error''), (''message'', message), (''hint'', hint)]"

text \<open>The two \<^verbatim>\<open>except\<close> clauses that close each handler.\<close>

definition handle_exception :: "py_error \<Rightarrow> 'a http_response" where
  "handle_exception e =
     (if is_ValueError e
      then JSONResponse 400 (error_content (str_of_error e) (ascii ''Check your input parameters''))
      else JSONResponse 500
             (error_content (str_of_error e) (ascii ''Internal server error occurred'')))"

text \<open>\<^verbatim>\<open>xs[-1] if xs else None\<close>.\<close>

definition last_or_none :: "'a list \<Rightarrow> 'a option" where
  "last_or_none xs = (if xs = [] then None else Some (last xs))"

text \<open>
  Lines 311 to 314 of \<^verbatim>\<open>main.py\<close>: the chosen token is put in front of the ranking when
  its id is not there, and the last entry is dropped.
\<close>

definition ensure_chosen_in_topk :: "token \<Rightarrow> token list \<Rightarrow> token list" where
  "ensure_chosen_in_topk chosen_tok topk_list =
     (let chosen_in_topk = list_ex (\<lambda>t. token_id t = token_id chosen_tok) topk_list
      in if \<not> chosen_in_topk then [chosen_tok] @ butlast topk_list else topk_list)"

text \<open>
  Each handler returns its response and the Scorer calls it made. The first argument
  of a handler after the library is the global \<^verbatim>\<open>adapter\<close>, \<open>None\<close> before start-up.
\<close>

definition next_dist ::
  "torch \<Rightarrow> adapter option \<Rightarrow> next_dist_request
     \<Rightarrow> next_dist_response http_response \<times> nat list list" where
  "next_dist T adapter_opt request =
     (case adapter_opt of
        None \<Rightarrow>
          (JSONResponse 500 (error_content (ascii ''Adapter not initialized'')
             (ascii ''Server startup may have failed'')), [])
      | Some ad \<Rightarrow>
          if nd_top_k request < 1 then
            (JSONResponse 400 (error_content (ascii ''top_k must be a positive integer'')
               (ascii ''Provide a top_k value between 1 and 30 (will be clamped to [5, 30])'')),
             [])
          else if length (nd_context_text request) > MAX_PAYLOAD_SIZE then
            (JSONResponse 400 (error_content (ascii ''Input too large (max 50000 characters)'')
               (ascii ''Reduce the size of your context_text input'')), [])
          else
            (let clamped_top_k = max TOP_K_MIN (min TOP_K_MAX (nd_top_k request));
                 text = nd_context_text request;
                 tokenize_result = tokenize ad text;
                 context_ids = fst tokenize_result;
                 context_tokens = snd tokenize_result;
                 context_len = length context_ids;
                 fwd = forward_last ad context_ids False
             in ((case fst fwd of
                   Inl e \<Rightarrow> handle_exception e
                 | Inr logits \<Rightarrow>
                     (case topk T ad logits clamped_top_k of
                        Inl e \<Rightarrow> handle_exception e
                      | Inr topk_list \<Rightarrow>
                          Response
                            \<lparr>contract_version = CONTRACT_VERSION,
                             context_len_tokens = context_len,
                             resp_topk = map TokenInfoModel topk_list,
                             coverage_topk = sum_list (map prob topk_list),
                             last_token_id = last_or_none context_ids,
                             last_token_text = last_or_none context_tokens,
                             resp_model_info =
                               \<lparr>provider = ascii ''hf-local'', mi_model_name = model_name ad,
                                mi_vocab_size = vocab_size ad\<rparr>\<rparr>)),
                 snd fwd)))"

definition step ::
  "torch \<Rightarrow> adapter option \<Rightarrow> step_request \<Rightarrow> step_response http_response \<times> nat list list" where
  "step T adapter_opt request =
     (case adapter_opt of
        None \<Rightarrow>
          (JSONResponse 500 (error_content (ascii ''Adapter not initialized'')
             (ascii ''Server startup may have failed'')), [])
      | Some ad \<Rightarrow>
          if top_k request < 1 then
            (JSONResponse 400 (error_content (ascii ''top_k must be a positive integer'')
               (ascii ''Provide a top_k value between 1 and 30 (will be clamped to [5, 30])'')),
             [])
          else if length (context_text request) > MAX_PAYLOAD_SIZE then
            (JSONResponse 400 (error_content (ascii ''Input too large (max 50000 characters)'')
               (ascii ''Reduce the size of your context_text input'')), [])
          else
            (let clamped_top_k = max TOP_K_MIN (min TOP_K_MAX (top_k request));
                 used = clamped_top_k;
                 text = context_text request;
                 tokenize_result = tokenize ad text;
                 context_ids = fst tokenize_result;
                 context_tokens = snd tokenize_result;
                 context_len = length context_ids;
                 fwd = forward_last ad context_ids (soften_newline_eot request = Some True)
             in ((case fst fwd of
                   Inl e \<Rightarrow> handle_exception e
                 | Inr logits \<Rightarrow>
                     (case topk T ad logits clamped_top_k of
                        Inl e \<Rightarrow> handle_exception e
                      | Inr topk_list \<Rightarrow>
                          (case choose_token T ad logits (mode request) clamped_top_k
                                  (if mode request = ascii ''stochastic''
                                   then temperature request else None)
                                  (if mode request = ascii ''stochastic''
                                   then top_p request else None) of
                             Inl e \<Rightarrow> handle_exception e
                           | Inr chosen_tok \<Rightarrow>
                               (let merged = ensure_chosen_in_topk chosen_tok topk_list
                                in Response
                                     \<lparr>contract_version = CONTRACT_VERSION,
                                      context_len_tokens = context_len,
                                      resp_topk = map TokenInfoModel merged,
                                      coverage_topk = sum_list (map prob merged),
                                      last_token_id = last_or_none context_ids,
                                      last_token_text = last_or_none context_tokens,
                                      resp_model_info =
                                        \<lparr>provider = ascii ''hf-local'',
                                         mi_model_name = model_name ad,
                                         mi_vocab_size = vocab_size ad\<rparr>,
                                      chosen = TokenInfoModel chosen_tok,
                                      append_text = token_text_raw chosen_tok,
                                      used_top_k = used\<rparr>)))),
                 snd fwd)))"

subsection \<open>The request models and the served routes\<close>

text \<open>
  The records \<open>step_request\<close> and \<open>next_dist_request\<close> are the bodies as they are posted.
  The web framework validates a body against the request model of the route before
  the handler runs: \<^verbatim>\<open>NextDistRequestModel\<close> and \<^verbatim>\<open>StepRequestModel\<close> bound the length of
  the context, \<open>top_k\<close>, the mode, the temperature and the threshold.
\<close>

definition next_dist_request_valid :: "next_dist_request \<Rightarrow> bool" where
  "next_dist_request_valid q \<longleftrightarrow>
     length (nd_context_text q) \<le> MAX_PAYLOAD_SIZE \<and> 1 \<le> nd_top_k q \<and> nd_top_k q \<le> 1000"

definition step_request_valid :: "step_request \<Rightarrow> bool" where
  "step_request_valid r \<longleftrightarrow>
     length (context_text r) \<le> MAX_PAYLOAD_SIZE \<and>
     1 \<le> top_k r \<and>
     (mode r = ascii ''argmax'' \<or> mode r = ascii ''stochastic'') \<and>
     (case temperature r of None \<Rightarrow> True | Some t \<Rightarrow> 2 / 10 \<le> t \<and> t \<le> 15 / 10) \<and>
     (case top_p r of None \<Rightarrow> True | Some p \<Rightarrow> 7 / 10 \<le> p \<and> p \<le> 1)"

text \<open>
  A body that fails the validation is answered by the framework, with status 422 and
  the dictionary \<^verbatim>\<open>{"detail": errors}\<close>; the handler is not called. The list of errors the
  framework writes is the parameter \<open>detail\<close>. \<open>post_step\<close> and \<open>post_next_dist\<close> are the
  routes \<^verbatim>\<open>POST /step\<close> and \<^verbatim>\<open>POST /next_dist\<close> as they are served.
\<close>

definition post_next_dist ::
  "(next_dist_request \<Rightarrow> ustr) \<Rightarrow> torch \<Rightarrow> adapter option \<Rightarrow> next_dist_request
     \<Rightarrow> next_dist_response http_response \<times> nat list list" where
  "post_next_dist detail T adapter_opt q =
     (if next_dist_request_valid q then next_dist T adapter_opt q
      else (JSONResponse 422 [(''detail'', detail q)], []))"

definition post_step ::
  "(step_request \<Rightarrow> ustr) \<Rightarrow> torch \<Rightarrow> adapter option \<Rightarrow> step_request
     \<Rightarrow> step_response http_response \<times> nat list list" where
  "post_step detail T adapter_opt r =
     (if step_request_valid r then step T adapter_opt r
      else (JSONResponse 422 [(''detail'', detail r)], []))"

subsection \<open>Sample collaborators\<close>

text \<open>
  A tokenizer with one token per code point and the end-of-text id 0; a model that
  scores each of its 6 tokens 0, and one with 40 tokens. They are used to run the
  definitions on concrete inputs.
\<close>

definition sample_adapter :: adapter where
  "sample_adapter =
     \<lparr>model_name = ascii ''sample'', tok_encode = (\<lambda>text. text), tok_decode = (\<lambda>i. [i]),
      tok_token_string = (\<lambda>i. [i]), eos_token_id = Some 0, vocab_size = 6,
      model_last_logits = (\<lambda>ids. [0, 0, 0, 0, 0, 0])\<rparr>"

definition wide_adapter :: adapter where
  "wide_adapter =
     \<lparr>model_name = ascii ''wide'', tok_encode = (\<lambda>text. text), tok_decode = (\<lambda>i. [i]),
      tok_token_string = (\<lambda>i. [i]), eos_token_id = Some 0, vocab_size = 40,
      model_last_logits = (\<lambda>ids. replicate 40 0)\<rparr>"

definition sample_request :: "ustr \<Rightarrow> int \<Rightarrow> ustr \<Rightarrow> step_request" where
  "sample_request text k m =
     \<lparr>context_text = text, top_k = k, mode = m, temperature = None, top_p = None,
      soften_newline_eot = None\<rparr>"

section \<open>Theorems\<close>

subsection \<open>The two sample selections meet the library's promise\<close>

lemma indexed_props:
  "length (indexed xs) = length xs"
  "distinct (map snd (indexed xs))"
  "p \<in> set (indexed xs) \<longleftrightarrow> snd p < length xs \<and> fst p = xs ! snd p"
proof -
  show "length (indexed xs) = length xs" by (simp add: indexed_def)
  show "distinct (map snd (indexed xs))" by (simp add: indexed_def)
  show "p \<in> set (indexed xs) \<longleftrightarrow> snd p < length xs \<and> fst p = xs ! snd p"
    by (cases p) (auto simp: indexed_def in_set_zip)
qed

lemma take_sorted_pairs_ok:
  assumes set_eq: "set ps = set (indexed xs)"
      and len: "length ps = length xs"
      and dist: "distinct (map snd ps)"
      and srt: "sorted_wrt (\<lambda>a b. fst a \<ge> fst b) ps"
      and k: "k \<le> length xs"
  shows "length (take k ps) = k"
    and "distinct (map snd (take k ps))"
    and "\<forall>p \<in> set (take k ps). snd p < length xs \<and> fst p = xs ! snd p"
    and "sorted_wrt (\<lambda>a b. a \<ge> b) (map fst (take k ps))"
    and "\<forall>j < length xs. j \<notin> set (map snd (take k ps)) \<longrightarrow>
           (\<forall>p \<in> set (take k ps). xs ! j \<le> fst p)"
proof -
  show "length (take k ps) = k" using len k by simp
  show "distinct (map snd (take k ps))"
    using dist by (simp add: take_map [symmetric] distinct_take)
  show "\<forall>p \<in> set (take k ps). snd p < length xs \<and> fst p = xs ! snd p"
  proof
    fix p assume "p \<in> set (take k ps)"
    then have "p \<in> set (indexed xs)" using set_eq by (auto dest: in_set_takeD)
    then show "snd p < length xs \<and> fst p = xs ! snd p"
      by (simp add: indexed_props(3))
  qed
  have split: "sorted_wrt (\<lambda>a b. fst a \<ge> fst b) (take k ps @ drop k ps)"
    using srt by simp
  show "sorted_wrt (\<lambda>a b. a \<ge> b) (map fst (take k ps))"
    using split unfolding sorted_wrt_append by (simp add: sorted_wrt_map)
  show "\<forall>j < length xs. j \<notin> set (map snd (take k ps)) \<longrightarrow>
           (\<forall>p \<in> set (take k ps). xs ! j \<le> fst p)"
  proof (intro allI impI ballI)
    fix j p
    assume j: "j < length xs" and out: "j \<notin> set (map snd (take k ps))"
       and p: "p \<in> set (take k ps)"
    have "(xs ! j, j) \<in> set ps"
      using j set_eq indexed_props(3) [of "(xs ! j, j)" xs] by simp
    then have "(xs ! j, j) \<in> set (take k ps) \<union> set (drop k ps)"
      by (metis append_take_drop_id set_append)
    moreover have "(xs ! j, j) \<notin> set (take k ps)"
      using out by force
    ultimately have in_drop: "(xs ! j, j) \<in> set (drop k ps)" by blast
    note in_drop
    moreover have "\<forall>a \<in> set (take k ps). \<forall>b \<in> set (drop k ps). fst b \<le> fst a"
      using split unfolding sorted_wrt_append by blast
    ultimately show "xs ! j \<le> fst p"
      using p by force
  qed
qed

lemma sort_pairs_props:
  assumes "set zs = set (indexed xs)" and "length zs = length xs" and "distinct (map snd zs)"
  shows "set (sort_key (\<lambda>p. - fst p) zs) = set (indexed xs)"
    and "length (sort_key (\<lambda>p. - fst p) zs) = length xs"
    and "distinct (map snd (sort_key (\<lambda>p. - fst p) zs))"
    and "sorted_wrt (\<lambda>a b. fst a \<ge> fst b) (sort_key (\<lambda>p. - fst p) zs)"
proof -
  let ?ps = "sort_key (\<lambda>p. - fst p) zs"
  show "set ?ps = set (indexed xs)" using assms(1) by simp
  show "length ?ps = length xs" using assms(2) by simp
  have "distinct zs" using assms(3) by (simp add: distinct_map)
  moreover have "inj_on snd (set zs)" using assms(3) by (simp add: distinct_map)
  ultimately show "distinct (map snd ?ps)" by (simp add: distinct_map)
  have "sorted (map (\<lambda>p. - fst p) ?ps)" by (rule sorted_sort_key)
  then show "sorted_wrt (\<lambda>a b. fst a \<ge> fst b) ?ps"
    by (simp add: sorted_map)
qed

lemma low_first_ok: "topk_select_ok (\<lambda>xs k. take k (sort_low_first xs))"
  unfolding topk_select_ok_def sort_low_first_def
proof (intro allI impI)
  fix xs :: "real list" and k
  assume k: "k \<le> length xs"
  note P = sort_pairs_props [of "indexed xs" xs, OF refl indexed_props(1) indexed_props(2)]
  show "length (take k (sort_key (\<lambda>p. - fst p) (indexed xs))) = k \<and>
        distinct (map snd (take k (sort_key (\<lambda>p. - fst p) (indexed xs)))) \<and>
        (\<forall>p \<in> set (take k (sort_key (\<lambda>p. - fst p) (indexed xs))).
           snd p < length xs \<and> fst p = xs ! snd p) \<and>
        sorted_wrt (\<lambda>a b. a \<ge> b) (map fst (take k (sort_key (\<lambda>p. - fst p) (indexed xs)))) \<and>
        (\<forall>j < length xs. j \<notin> set (map snd (take k (sort_key (\<lambda>p. - fst p) (indexed xs)))) \<longrightarrow>
           (\<forall>p \<in> set (take k (sort_key (\<lambda>p. - fst p) (indexed xs))). xs ! j \<le> fst p))"
    using take_sorted_pairs_ok [OF P k] by blast
qed

lemma high_first_ok: "topk_select_ok (\<lambda>xs k. take k (sort_high_first xs))"
  unfolding topk_select_ok_def sort_high_first_def
proof (intro allI impI)
  fix xs :: "real list" and k
  assume k: "k \<le> length xs"
  have a: "set (rev (indexed xs)) = set (indexed xs)" by simp
  have b: "length (rev (indexed xs)) = length xs" by (simp add: indexed_props(1))
  have c: "distinct (map snd (rev (indexed xs)))"
    using indexed_props(2) [of xs] by (simp add: rev_map [symmetric])
  note P = sort_pairs_props [OF a b c]
  show "length (take k (sort_key (\<lambda>p. - fst p) (rev (indexed xs)))) = k \<and>
        distinct (map snd (take k (sort_key (\<lambda>p. - fst p) (rev (indexed xs))))) \<and>
        (\<forall>p \<in> set (take k (sort_key (\<lambda>p. - fst p) (rev (indexed xs)))).
           snd p < length xs \<and> fst p = xs ! snd p) \<and>
        sorted_wrt (\<lambda>a b. a \<ge> b) (map fst (take k (sort_key (\<lambda>p. - fst p) (rev (indexed xs))))) \<and>
        (\<forall>j < length xs. j \<notin> set (map snd (take k (sort_key (\<lambda>p. - fst p) (rev (indexed xs))))) \<longrightarrow>
           (\<forall>p \<in> set (take k (sort_key (\<lambda>p. - fst p) (rev (indexed xs)))). xs ! j \<le> fst p))"
    using take_sorted_pairs_ok [OF P k] by blast
qed

lemma low_first_torch_ok: "topk_select_ok (topk_select (torch_low_first d))"
  by (simp add: torch_low_first_def low_first_ok)

lemma high_first_torch_ok: "topk_select_ok (topk_select (torch_high_first d))"
  by (simp add: torch_high_first_def high_first_ok)

subsection \<open>Context window cap\<close>

text \<open>
  C6. When the tokenization of the text has more than 512 ids, \<open>tokenize\<close> keeps exactly
  its last 512 ids, in their order (the ids are the tokenization with a prefix removed);
  a tokenization of at most 512 ids is returned as it is.
\<close>

theorem tokenize_context_cap:
  "(length (tok_encode ad text) > 512 \<longrightarrow>
      length (fst (tokenize ad text)) = 512 \<and>
      fst (tokenize ad text) = drop (length (tok_encode ad text) - 512) (tok_encode ad text) \<and>
      (\<forall>i<512. fst (tokenize ad text) ! i
                 = tok_encode ad text ! (length (tok_encode ad text) - 512 + i)))
   \<and> (length (tok_encode ad text) \<le> 512 \<longrightarrow> fst (tokenize ad text) = tok_encode ad text)"
  by (simp add: tokenize_def py_last_n_def CONTEXT_CAP_TOKENS_def Let_def)

theorem tokenize_context_cap_witness:
  "length (tok_encode sample_adapter [0..<2000]) > 512 \<and>
   length (fst (tokenize sample_adapter [0..<2000])) = 512 \<and>
   fst (tokenize sample_adapter [0..<2000]) = [1488..<2000] \<and>
   length (tok_encode sample_adapter [7, 8, 9]) \<le> 512 \<and>
   fst (tokenize sample_adapter [7, 8, 9]) = [7, 8, 9]"
  using tokenize_context_cap [of sample_adapter "[0..<2000]"]
        tokenize_context_cap [of sample_adapter "[7, 8, 9]"]
  by (simp add: sample_adapter_def)

subsection \<open>Display labels\<close>

text \<open>
  C9. The token that is one newline character is all whitespace and not all spaces, so
  its label is U+2420, U+00D7 and the digit 1, not U+23CE followed by a backslash and
  \<open>n\<close>; the character loop gives a newline that label only inside a token that has a
  character that is not whitespace.
\<close>

theorem newline_token_display:
  "make_token_display [10] = [0x2420, 0xD7, 49] \<and>
   make_token_display [10] \<noteq> [0x23CE, 92, 110] \<and>
   make_token_display [97, 10] = [97, 0x23CE, 92, 110]"
  by (simp add: make_token_display_def isspace_def is_whitespace_def str_nat.simps
      display_char_def is_Cc_def)

text \<open>
  The other labels: the empty token, one space, three spaces, the control character
  U+0001, a space and a tab (mixed whitespace, counted), a space before a letter.
\<close>

lemma token_display_examples:
  "make_token_display [] = [] \<and>
   make_token_display [32] = [0x2420] \<and>
   make_token_display [32, 32, 32] = [0x2420, 0xD7, 51] \<and>
   make_token_display [1] = [0x27E6, 85, 43, 48, 48, 48, 49, 0x27E7] \<and>
   make_token_display [32, 9] = [0x2420, 0xD7, 50] \<and>
   make_token_display [32, 97] = [0x2420, 97]"
  by (simp add: make_token_display_def isspace_def is_whitespace_def str_nat.simps
      display_char_def is_Cc_def format_04X_def hex_upper.simps hex_digit_def numeral_3_eq_3)

subsection \<open>Greedy selection\<close>

lemma takeWhile_stops:
  "x \<in> set xs \<Longrightarrow> \<not> P x \<Longrightarrow> length (takeWhile P xs) < length xs"
  by (induction xs) auto

lemma torch_argmax_first_max:
  assumes "xs \<noteq> []"
  shows "\<exists>i. torch_argmax xs = Inr i \<and> i < length xs \<and> (\<forall>j < length xs. xs ! j \<le> xs ! i) \<and>
             (\<forall>j < i. xs ! j < xs ! i)"
proof -
  let ?m = "Max (set xs)"
  let ?i = "length (takeWhile (\<lambda>v. v \<noteq> ?m) xs)"
  have m_in: "?m \<in> set xs" using assms by (simp add: Max_in)
  then have lt: "?i < length xs"
    by (rule takeWhile_stops) simp
  have at: "xs ! ?i = ?m"
    using nth_length_takeWhile [OF lt] by simp
  have ge: "\<forall>j < length xs. xs ! j \<le> xs ! ?i"
    using at by (simp add: Max_ge)
  have before: "\<forall>j < ?i. xs ! j < xs ! ?i"
  proof (intro allI impI)
    fix j assume j: "j < ?i"
    then have "takeWhile (\<lambda>v. v \<noteq> ?m) xs ! j = xs ! j" by (rule takeWhile_nth)
    moreover have "takeWhile (\<lambda>v. v \<noteq> ?m) xs ! j \<in> set (takeWhile (\<lambda>v. v \<noteq> ?m) xs)"
      using j by simp
    ultimately have "xs ! j \<noteq> ?m" by (metis (mono_tags, lifting) set_takeWhileD)
    moreover have "xs ! j \<le> ?m" using j lt by (simp add: Max_ge)
    ultimately show "xs ! j < xs ! ?i" using at by simp
  qed
  show ?thesis using assms lt ge before by (simp add: torch_argmax_def)
qed

lemma argmax_choice:
  assumes "logits \<noteq> []"
  shows "\<exists>c. choose_token T ad logits (ascii ''argmax'') k t p = Inr c \<and>
             token_id c < length logits \<and>
             (\<forall>j < length logits. log_softmax logits ! j \<le> log_softmax logits ! token_id c) \<and>
             (\<forall>j < token_id c. log_softmax logits ! j < log_softmax logits ! token_id c) \<and>
             logprob c = log_softmax logits ! token_id c \<and>
             prob c = exp (logprob c) \<and>
             surprisal c = Some (- ln (prob c + 1 / 10 ^ 12)) \<and>
             choose_token T' ad logits (ascii ''argmax'') k' t' p' = Inr c"
proof -
  have ne: "log_softmax logits \<noteq> []" using assms by (simp add: log_softmax_def)
  have len: "length (log_softmax logits) = length logits" by (simp add: log_softmax_def)
  from torch_argmax_first_max [OF ne] obtain i where
    i: "torch_argmax (log_softmax logits) = Inr i" "i < length logits"
       "\<forall>j < length logits. log_softmax logits ! j \<le> log_softmax logits ! i"
       "\<forall>j < i. log_softmax logits ! j < log_softmax logits ! i"
    using len by auto
  show ?thesis
    using i by (simp add: choose_token_def chosen_entry_def Let_def)
qed

text \<open>
  C3. On a non-empty logit vector, \<open>choose\<close> in mode \<^verbatim>\<open>argmax\<close> returns a token whose id is
  an index of the vector with the highest log-probability of the whole vector (the first
  such index); its log-probability is the entry at that index, its probability is the
  exponential of its log-probability and its surprisal is \<open>- ln (prob + 1e-12)\<close>. The
  result is the same for every \<open>k\<close> (and temperature, threshold and library).
\<close>

theorem greedy_is_global_argmax:
  assumes "logits \<noteq> []"
  shows "\<exists>c. choose_token T ad logits (ascii ''argmax'') k t p = Inr c \<and>
             token_id c < length logits \<and>
             (\<forall>j < length logits. log_softmax logits ! j \<le> log_softmax logits ! token_id c) \<and>
             (\<forall>j < token_id c. log_softmax logits ! j < log_softmax logits ! token_id c) \<and>
             logprob c = log_softmax logits ! token_id c \<and>
             prob c = exp (logprob c) \<and>
             surprisal c = Some (- ln (prob c + 1 / 10 ^ 12)) \<and>
             choose_token T' ad logits (ascii ''argmax'') k' t' p' = Inr c"
  using assms by (rule argmax_choice)

theorem greedy_is_global_argmax_witness:
  "([1, 3, 2] :: real list) \<noteq> [] \<and>
   (\<exists>c. choose_token (torch_low_first (\<lambda>ps. 0)) sample_adapter [1, 3, 2] (ascii ''argmax'') 5
          None None = Inr c \<and>
        token_id c = 1 \<and> token_id c < length [1, 3, 2 :: real] \<and>
        logprob c = log_softmax [1, 3, 2] ! 1 \<and> prob c = exp (logprob c) \<and>
        surprisal c = Some (- ln (prob c + 1 / 10 ^ 12)) \<and>
        choose_token (torch_high_first (\<lambda>ps. 2)) sample_adapter [1, 3, 2] (ascii ''argmax'') 30
          (Some 1) (Some 1) = Inr c)"
proof -
  have ne: "([1, 3, 2] :: real list) \<noteq> []" by simp
  from greedy_is_global_argmax [OF ne, of "torch_low_first (\<lambda>ps. 0)" sample_adapter 5 None None
      "torch_high_first (\<lambda>ps. 2)" 30 "Some 1" "Some 1"]
  obtain c where c:
    "choose_token (torch_low_first (\<lambda>ps. 0)) sample_adapter [1, 3, 2] (ascii ''argmax'') 5
       None None = Inr c"
    "token_id c < length [1, 3, 2 :: real]"
    "\<forall>j < length [1, 3, 2 :: real]. log_softmax [1, 3, 2] ! j \<le> log_softmax [1, 3, 2] ! token_id c"
    "logprob c = log_softmax [1, 3, 2] ! token_id c" "prob c = exp (logprob c)"
    "surprisal c = Some (- ln (prob c + 1 / 10 ^ 12))"
    "choose_token (torch_high_first (\<lambda>ps. 2)) sample_adapter [1, 3, 2] (ascii ''argmax'') 30
       (Some 1) (Some 1) = Inr c"
    by blast
  have "token_id c = 0 \<or> token_id c = 1 \<or> token_id c = 2" using c(2) by auto
  moreover have "log_softmax [1, 3, 2] ! 1 \<le> log_softmax [1, 3, 2] ! token_id c"
    using c(3) by simp
  ultimately have id1: "token_id c = 1" by (auto simp: log_softmax_def)
  show ?thesis
    using c id1 by auto
qed

subsection \<open>Stochastic selection\<close>

text \<open>
  C10. In mode \<^verbatim>\<open>stochastic\<close>, two calls of \<open>choose\<close> that differ only in \<open>k\<close> return the same
  result (the same token, or the same exception): \<open>k\<close> is clamped and not used.
\<close>

theorem stochastic_ignores_k:
  "choose_token T ad logits (ascii ''stochastic'') k1 t p
     = choose_token T ad logits (ascii ''stochastic'') k2 t p"
  by (simp add: choose_token_def Let_def)

lemma unsupported_mode_raises:
  assumes "m \<noteq> ascii ''argmax''" and "m \<noteq> ascii ''stochastic''"
  shows "choose_token T ad logits m k t p = Inl (ValueError (ascii ''Unsupported mode: '' @ m))"
  using assms by (simp add: choose_token_def Let_def)

lemma softmax_zeros8:
  "softmax [0, 0, 0, 0, 0, 0, 0, 0] = [1 / 8, 1 / 8, 1 / 8, 1 / 8, 1 / 8, 1 / 8, 1 / 8, 1 / 8]"
  by (simp add: softmax_def)

lemma indexed8:
  "indexed [a, b, c, d, e, f, g, h]
     = [(a, 0), (b, 1), (c, 2), (d, 3), (e, 4), (f, 5), (g, 6), (h, 7)]"
  by (simp add: indexed_def upt_rec)

lemma sort_low_first_eighths:
  "sort_low_first [1 / 8, 1 / 8, 1 / 8, 1 / 8, 1 / 8, 1 / 8, 1 / 8, 1 / 8]
     = [(1 / 8, 0), (1 / 8, 1), (1 / 8, 2), (1 / 8, 3), (1 / 8, 4), (1 / 8, 5), (1 / 8, 6), (1 / 8, 7)]"
  by (simp add: sort_low_first_def indexed8)

lemma cumsum_eighths:
  "cumsum [1 / 8, 1 / 8, 1 / 8, 1 / 8, 1 / 8, 1 / 8, 1 / 8, 1 / 8]
     = [1 / 8, 1 / 4, 3 / 8, 1 / 2, 5 / 8, 3 / 4, 7 / 8, 1]"
  by (simp add: cumsum_def)

lemma top_p_filter_eighths:
  "top_p_filter (torch_low_first d) (softmax [0, 0, 0, 0, 0, 0, 0, 0]) (7 / 10)
     = Inr [1 / 5, 1 / 5, 1 / 5, 1 / 5, 1 / 5, 0, 0, 0]"
  by (simp add: top_p_filter_def Let_def softmax_zeros8 torch_low_first_def sort_low_first_eighths
      cumsum_eighths eval_nat_numeral)

lemma softmax_532:
  "softmax [ln 5, ln 3, ln 2] = [1 / 2, 3 / 10, 1 / 5]"
  by (simp add: softmax_def)

lemma indexed3: "indexed [a, b, c] = [(a, 0), (b, 1), (c, 2)]"
  by (simp add: indexed_def upt_rec)

lemma sort_532:
  "sort_low_first [1 / 2, 3 / 10, 1 / 5] = [(1 / 2, 0), (3 / 10, 1), (1 / 5, 2)]"
  "sort_high_first [1 / 2, 3 / 10, 1 / 5] = [(1 / 2, 0), (3 / 10, 1), (1 / 5, 2)]"
  by (simp_all add: sort_low_first_def sort_high_first_def indexed3)

lemma cumsum_532: "cumsum [1 / 2, 3 / 10, 1 / 5] = [1 / 2, 4 / 5, 1]"
  by (simp add: cumsum_def)

lemma top_p_filter_532:
  "top_p_filter (torch_low_first d) (softmax [ln 5, ln 3, ln 2]) (7 / 10) = Inr [1, 0, 0]"
  "top_p_filter (torch_high_first d) (softmax [ln 5, ln 3, ln 2]) (7 / 10) = Inr [1, 0, 0]"
  by (simp_all add: top_p_filter_def Let_def softmax_532 torch_low_first_def torch_high_first_def
      sort_532 cumsum_532 eval_nat_numeral)

text \<open>
  C1. On eight equal logits with temperature 1 and threshold 0.7 the sorted
  probabilities are eight times \<open>1/8\<close> and their running sums \<open>1/8, 1/4, ..., 1\<close>. The
  filter keeps the entries whose running sum is at most 0.7, the first five, of
  cumulative probability \<open>5/8 < 0.7\<close>, and renormalises them to \<open>1/5\<close> each; the smallest
  prefix whose cumulative probability reaches 0.7 has six entries (\<open>3/4\<close>). The token
  drawn at index 0 is reported with probability \<open>1/5\<close>. On the probabilities \<open>1/2, 3/10,
  1/5\<close>, which have no equal entries, the filter keeps the first alone (\<open>1/2 < 0.7\<close>),
  whatever the library's order of equal values; the smallest prefix that reaches 0.7
  has two entries.
\<close>

theorem nucleus_keeps_less_than_top_p:
  "top_p_filter (torch_low_first (\<lambda>ps. 0)) (softmax [0, 0, 0, 0, 0, 0, 0, 0]) (7 / 10)
     = Inr [1 / 5, 1 / 5, 1 / 5, 1 / 5, 1 / 5, 0, 0, 0] \<and>
   cumsum (map fst (sort_descending (torch_low_first (\<lambda>ps. 0))
                      (softmax [0, 0, 0, 0, 0, 0, 0, 0])))
     = [1 / 8, 1 / 4, 3 / 8, 1 / 2, 5 / 8, 3 / 4, 7 / 8, 1] \<and>
   (5 / 8 :: real) < 7 / 10 \<and> (7 / 10 :: real) \<le> 3 / 4 \<and>
   choose_token (torch_low_first (\<lambda>ps. 0)) sample_adapter [0, 0, 0, 0, 0, 0, 0, 0]
       (ascii ''stochastic'') 10 (Some 1) (Some (7 / 10))
     = Inr (chosen_entry sample_adapter 0 (1 / 5) (ln (1 / 5 + 1 / 10 ^ 10))) \<and>
   softmax [ln 5, ln 3, ln 2] = [1 / 2, 3 / 10, 1 / 5] \<and>
   top_p_filter (torch_low_first (\<lambda>ps. 0)) (softmax [ln 5, ln 3, ln 2]) (7 / 10)
     = Inr [1, 0, 0] \<and>
   top_p_filter (torch_high_first (\<lambda>ps. 0)) (softmax [ln 5, ln 3, ln 2]) (7 / 10)
     = Inr [1, 0, 0] \<and>
   (1 / 2 :: real) < 7 / 10 \<and> (7 / 10 :: real) \<le> 1 / 2 + 3 / 10"
proof -
  have ne: "ascii ''stochastic'' \<noteq> ascii ''argmax''" by (simp add: ascii_def)
  have c: "cumsum (map fst (sort_descending (torch_low_first (\<lambda>ps. 0))
                      (softmax [0, 0, 0, 0, 0, 0, 0, 0])))
     = [1 / 8, 1 / 4, 3 / 8, 1 / 2, 5 / 8, 3 / 4, 7 / 8, 1]"
    using cumsum_eighths
    by (simp add: softmax_zeros8 torch_low_first_def sort_low_first_eighths)
  have d: "choose_token (torch_low_first (\<lambda>ps. 0)) sample_adapter [0, 0, 0, 0, 0, 0, 0, 0]
       (ascii ''stochastic'') 10 (Some 1) (Some (7 / 10))
     = Inr (chosen_entry sample_adapter 0 (1 / 5) (ln (1 / 5 + 1 / 10 ^ 10)))"
    using ne top_p_filter_eighths [of "\<lambda>ps. 0"]
    by (simp add: choose_token_def Let_def torch_multinomial_def)
       (simp add: torch_low_first_def)
  have n: "(5 / 8 :: real) < 7 / 10" "(7 / 10 :: real) \<le> 3 / 4"
          "(1 / 2 :: real) < 7 / 10" "(7 / 10 :: real) \<le> 1 / 2 + 3 / 10"
    by simp_all
  show ?thesis
    by (intro conjI) (fact top_p_filter_eighths c d n softmax_532 top_p_filter_532)+
qed

subsection \<open>The ranking\<close>

lemma py_sort_reverse_sorted:
  assumes "sorted_wrt (\<lambda>a b. f a \<ge> f b) xs"
  shows "py_sort_reverse f xs = xs"
proof -
  have "sorted (map (\<lambda>x. - f x) xs)"
    using assms by (simp add: sorted_map)
  then show ?thesis
    unfolding py_sort_reverse_def by (rule sort_key_id_if_sorted)
qed

lemma topk_entry_fields:
  "token_id (topk_entry ad p) = snd p" "logprob (topk_entry ad p) = fst p"
  "prob (topk_entry ad p) = exp (fst p)" "surprisal (topk_entry ad p) = None"
  by (simp_all add: topk_entry_def Let_def)

lemma topk_is_selection:
  assumes ok: "topk_select_ok (topk_select T)"
      and k: "nat (max 5 (min 30 k0)) \<le> length logits"
  shows "topk T ad logits k0 =
           Inr (map (topk_entry ad) (topk_select T (log_softmax logits) (nat (max 5 (min 30 k0)))))"
proof -
  let ?k = "nat (max 5 (min 30 k0))"
  let ?sel = "topk_select T (log_softmax logits) ?k"
  have len: "length (log_softmax logits) = length logits" by (simp add: log_softmax_def)
  have "sorted_wrt (\<lambda>a b. a \<ge> b) (map fst ?sel)"
    using ok k len unfolding topk_select_ok_def by simp
  then have "sorted_wrt (\<lambda>a b. prob a \<ge> prob b) (map (topk_entry ad) ?sel)"
    by (simp add: sorted_wrt_map topk_entry_fields)
  then have "py_sort_reverse prob (map (topk_entry ad) ?sel) = map (topk_entry ad) ?sel"
    by (rule py_sort_reverse_sorted)
  then show ?thesis
    using k len by (simp add: topk_def torch_topk_def Let_def HF_TOP_K_MIN_def HF_TOP_K_MAX_def)
qed

lemma topk_Inr_size:
  assumes "topk T ad logits k0 = Inr r"
  shows "nat (max 5 (min 30 k0)) \<le> length logits"
  using assms
  by (auto simp: topk_def torch_topk_def Let_def HF_TOP_K_MIN_def HF_TOP_K_MAX_def log_softmax_def
      split: if_splits)

lemma topk_shape:
  assumes ok: "topk_select_ok (topk_select T)"
      and k: "nat (max 5 (min 30 k0)) \<le> length logits"
  shows "\<exists>r. topk T ad logits k0 = Inr r \<and> int (length r) = max 5 (min 30 k0) \<and>
             sorted_wrt (\<lambda>a b. a \<ge> b) (map prob r) \<and> distinct (map token_id r) \<and>
             map token_id r = map snd (topk_select T (log_softmax logits) (nat (max 5 (min 30 k0)))) \<and>
             map logprob r = map fst (topk_select T (log_softmax logits) (nat (max 5 (min 30 k0))))"
proof -
  let ?k = "nat (max 5 (min 30 k0))"
  let ?sel = "topk_select T (log_softmax logits) ?k"
  have len: "length (log_softmax logits) = length logits" by (simp add: log_softmax_def)
  have sel: "length ?sel = ?k" "distinct (map snd ?sel)"
            "sorted_wrt (\<lambda>a b. a \<ge> b) (map fst ?sel)"
    using ok k len unfolding topk_select_ok_def by simp_all
  have ids: "map token_id (map (topk_entry ad) ?sel) = map snd ?sel"
    by (simp add: topk_entry_fields comp_def)
  have lps: "map logprob (map (topk_entry ad) ?sel) = map fst ?sel"
    by (simp add: topk_entry_fields comp_def)
  have srt: "sorted_wrt (\<lambda>a b. a \<ge> b) (map prob (map (topk_entry ad) ?sel))"
    using sel(3) by (simp add: sorted_wrt_map topk_entry_fields)
  have "int (length (map (topk_entry ad) ?sel)) = max 5 (min 30 k0)"
    using sel(1) by simp
  with topk_is_selection [OF ok k, of ad] ids lps srt sel(2) show ?thesis
    by (metis (no_types, lifting))
qed

lemma log_softmax_zeros6:
  "log_softmax [0, 0, 0, 0, 0, 0] = [- ln 6, - ln 6, - ln 6, - ln 6, - ln 6, - ln 6]"
  by (simp add: log_softmax_def)

lemma indexed6:
  "indexed [a, b, c, d, e, f] = [(a, 0), (b, 1), (c, 2), (d, 3), (e, 4), (f, 5)]"
  by (simp add: indexed_def upt_rec)

lemma sort_low_first_zeros6:
  "sort_low_first (log_softmax [0, 0, 0, 0, 0, 0]) =
     [(- ln 6, 0), (- ln 6, 1), (- ln 6, 2), (- ln 6, 3), (- ln 6, 4), (- ln 6, 5)]"
  by (simp add: log_softmax_zeros6 sort_low_first_def indexed6)

lemma sort_high_first_zeros6:
  "sort_high_first (log_softmax [0, 0, 0, 0, 0, 0]) =
     [(- ln 6, 5), (- ln 6, 4), (- ln 6, 3), (- ln 6, 2), (- ln 6, 1), (- ln 6, 0)]"
  by (simp add: log_softmax_zeros6 sort_high_first_def indexed6)

lemma topk_low_zeros6:
  "topk (torch_low_first d) ad [0, 0, 0, 0, 0, 0] 5 =
     Inr (map (topk_entry ad) [(- ln 6, 0), (- ln 6, 1), (- ln 6, 2), (- ln 6, 3), (- ln 6, 4)])"
proof -
  have ok: "topk_select_ok (topk_select (torch_low_first d))"
    by (simp add: torch_low_first_def low_first_ok)
  show ?thesis
    using topk_is_selection [OF ok, of 5 "[0, 0, 0, 0, 0, 0]" ad]
    by (simp add: torch_low_first_def sort_low_first_zeros6)
qed

lemma topk_high_zeros6:
  "topk (torch_high_first d) ad [0, 0, 0, 0, 0, 0] 5 =
     Inr (map (topk_entry ad) [(- ln 6, 5), (- ln 6, 4), (- ln 6, 3), (- ln 6, 2), (- ln 6, 1)])"
proof -
  have ok: "topk_select_ok (topk_select (torch_high_first d))"
    by (simp add: torch_high_first_def high_first_ok)
  show ?thesis
    using topk_is_selection [OF ok, of 5 "[0, 0, 0, 0, 0, 0]" ad]
    by (simp add: torch_high_first_def sort_high_first_zeros6)
qed

lemma argmax_zeros6:
  "choose_token T ad [0, 0, 0, 0, 0, 0] (ascii ''argmax'') k t p =
     Inr (chosen_entry ad 0 (exp (- ln 6)) (- ln 6))"
  by (simp add: choose_token_def Let_def log_softmax_zeros6 torch_argmax_def)

subsection \<open>The logits and the soft bias\<close>

lemma tensor_sub_at_nth:
  assumes "i < length xs"
  shows "tensor_sub_at xs i d = Inr (xs[i := xs ! i - d])"
  using assms by (simp add: tensor_sub_at_def)

lemma forward_last_plain: "forward_last ad ids False = (Inr (model_last_logits ad ids), [ids])"
  by (simp add: forward_last_def)

lemma forward_last_soften:
  assumes nl: "nl = (case tok_encode ad [10] of [] \<Rightarrow> None | n # _ \<Rightarrow> Some n)"
      and L: "L = model_last_logits ad ids"
      and r1: "\<forall>n. nl = Some n \<longrightarrow> n < length L"
      and r2: "\<forall>e. eos_token_id ad = Some e \<longrightarrow> e < length L"
  shows "\<exists>out. forward_last ad ids True = (Inr out, [ids]) \<and> length out = length L \<and>
           (\<forall>i < length L. out ! i = L ! i - (if nl = Some i then 2 else 0)
                                        - (if eos_token_id ad = Some i then 2 else 0))"
proof -
  define L1 where "L1 = (case nl of None \<Rightarrow> L | Some n \<Rightarrow> L[n := L ! n - 2])"
  define L2 where "L2 = (case eos_token_id ad of None \<Rightarrow> L1 | Some e \<Rightarrow> L1[e := L1 ! e - 2])"
  have len1: "length L1 = length L" by (simp add: L1_def split: option.splits)
  have len2: "length L2 = length L" by (simp add: L2_def len1 split: option.splits)
  have s1: "(case nl of None \<Rightarrow> Inr L | Some n \<Rightarrow> tensor_sub_at L n 2) = Inr L1"
    using r1 by (simp add: L1_def tensor_sub_at_nth split: option.splits)
  have s2: "(case eos_token_id ad of None \<Rightarrow> Inr L1 | Some e \<Rightarrow> tensor_sub_at L1 e 2) = Inr L2"
    using r2 by (simp add: L2_def len1 tensor_sub_at_nth split: option.splits)
  have run: "forward_last ad ids True = (Inr L2, [ids])"
    using s1 s2 unfolding forward_last_def Let_def nl [symmetric] L [symmetric] by simp
  have v1: "L1 ! i = L ! i - (if nl = Some i then 2 else 0)" if "i < length L" for i
    using that by (cases nl) (auto simp: L1_def nth_list_update)
  have v2: "L2 ! i = L1 ! i - (if eos_token_id ad = Some i then 2 else 0)" if "i < length L" for i
    using that len1 by (cases "eos_token_id ad") (auto simp: L2_def nth_list_update)
  show ?thesis
    using run len2 v1 v2 by simp
qed

subsection \<open>The handlers\<close>

lemma error_content_keys:
  "map_of (error_content m h) ''message'' = Some m \<and> map_of (error_content m h) ''hint'' = Some h"
  by (simp add: error_content_def)

lemma handle_exception_is_error:
  "\<exists>code m h. (handle_exception e :: 'a http_response) = JSONResponse code (error_content m h)"
  unfolding handle_exception_def by (cases "is_ValueError e") auto

lemma clamp_idem: "max 5 (min 30 (max 5 (min 30 (k::int)))) = max 5 (min 30 k)"
  by simp

lemma step_Response_parts:
  assumes "fst (step T (Some ad) r) = Response resp"
  shows "\<exists>ls tk ch.
           fst (forward_last ad (fst (tokenize ad (context_text r)))
                  (soften_newline_eot r = Some True)) = Inr ls \<and>
           topk T ad ls (max 5 (min 30 (top_k r))) = Inr tk \<and>
           choose_token T ad ls (mode r) (max 5 (min 30 (top_k r)))
             (if mode r = ascii ''stochastic'' then temperature r else None)
             (if mode r = ascii ''stochastic'' then top_p r else None) = Inr ch \<and>
           resp_topk resp = map TokenInfoModel (ensure_chosen_in_topk ch tk) \<and>
           coverage_topk resp = sum_list (map prob (ensure_chosen_in_topk ch tk)) \<and>
           chosen resp = TokenInfoModel ch \<and>
           used_top_k resp = max 5 (min 30 (top_k r))"
  using assms
  by (auto simp: step_def Let_def handle_exception_def TOP_K_MIN_def TOP_K_MAX_def
      split: if_splits sum.splits)

lemma ensure_chosen_props:
  assumes "tk \<noteq> []"
  shows "length (ensure_chosen_in_topk ch tk) = length tk"
    and "token_id ch \<in> set (map token_id (ensure_chosen_in_topk ch tk))"
    and "ensure_chosen_in_topk ch tk =
           (if token_id ch \<in> set (map token_id tk) then tk else ch # butlast tk)"
proof -
  have ex: "list_ex (\<lambda>t. token_id t = token_id ch) tk \<longleftrightarrow> token_id ch \<in> set (map token_id tk)"
    by (induction tk) auto
  show "ensure_chosen_in_topk ch tk =
           (if token_id ch \<in> set (map token_id tk) then tk else ch # butlast tk)"
    unfolding ensure_chosen_in_topk_def Let_def ex by simp
  then show "length (ensure_chosen_in_topk ch tk) = length tk"
    using assms by simp
  show "token_id ch \<in> set (map token_id (ensure_chosen_in_topk ch tk))"
    unfolding ensure_chosen_in_topk_def Let_def ex by simp
qed

lemma step_ranking:
  assumes ok: "topk_select_ok (topk_select T)"
      and st: "fst (step T (Some ad) r) = Response resp"
  shows "\<exists>ls tk ch.
           fst (forward_last ad (fst (tokenize ad (context_text r)))
                  (soften_newline_eot r = Some True)) = Inr ls \<and>
           topk T ad ls (max 5 (min 30 (top_k r))) = Inr tk \<and>
           choose_token T ad ls (mode r) (max 5 (min 30 (top_k r)))
             (if mode r = ascii ''stochastic'' then temperature r else None)
             (if mode r = ascii ''stochastic'' then top_p r else None) = Inr ch \<and>
           chosen resp = TokenInfoModel ch \<and>
           resp_topk resp =
             map TokenInfoModel (if token_id ch \<in> set (map token_id tk) then tk
                                 else ch # butlast tk) \<and>
           int (length tk) = max 5 (min 30 (top_k r)) \<and>
           int (length (resp_topk resp)) = max 5 (min 30 (top_k r)) \<and>
           used_top_k resp = max 5 (min 30 (top_k r)) \<and>
           tm_token_id (chosen resp) \<in> set (map tm_token_id (resp_topk resp))"
proof -
  let ?c = "max 5 (min 30 (top_k r))"
  from step_Response_parts [OF st] obtain ls tk ch where
    p: "fst (forward_last ad (fst (tokenize ad (context_text r)))
              (soften_newline_eot r = Some True)) = Inr ls"
       "topk T ad ls ?c = Inr tk"
       "choose_token T ad ls (mode r) ?c
          (if mode r = ascii ''stochastic'' then temperature r else None)
          (if mode r = ascii ''stochastic'' then top_p r else None) = Inr ch"
       "resp_topk resp = map TokenInfoModel (ensure_chosen_in_topk ch tk)"
       "chosen resp = TokenInfoModel ch"
       "used_top_k resp = ?c"
    by blast
  have sz: "nat (max 5 (min 30 ?c)) \<le> length ls" using p(2) by (rule topk_Inr_size)
  from topk_shape [OF ok sz, of ad] p(2) have len: "int (length tk) = ?c"
    by (simp only: clamp_idem) auto
  then have ne: "tk \<noteq> []" by auto
  note e = ensure_chosen_props [OF ne, of ch]
  have ids: "map tm_token_id (map TokenInfoModel xs) = map token_id xs" for xs
    by (simp add: TokenInfoModel_def comp_def)
  have a: "resp_topk resp =
             map TokenInfoModel (if token_id ch \<in> set (map token_id tk) then tk
                                 else ch # butlast tk)"
    using p(4) e(3) by simp
  have b: "int (length (resp_topk resp)) = ?c"
    using p(4) e(1) len by simp
  have c: "tm_token_id (chosen resp) \<in> set (map tm_token_id (resp_topk resp))"
    using e(2) unfolding p(4) p(5) ids by (simp add: TokenInfoModel_def)
  show ?thesis using p(1,2,3,5,6) a b c len by blast
qed

lemma step_argmax_returns:
  assumes ok: "topk_select_ok (topk_select T)"
      and k: "1 \<le> top_k r" and l: "length (context_text r) \<le> 50000"
      and m: "mode r = ascii ''argmax''"
      and fw: "fst (forward_last ad (fst (tokenize ad (context_text r)))
                      (soften_newline_eot r = Some True)) = Inr ls"
      and v: "nat (max 5 (min 30 (top_k r))) \<le> length ls"
  shows "\<exists>resp. fst (step T (Some ad) r) = Response resp"
proof -
  let ?c = "max 5 (min 30 (top_k r))"
  have v': "nat (max 5 (min 30 ?c)) \<le> length ls" using v by (simp only: clamp_idem)
  from topk_shape [OF ok v', of ad] obtain tk where tk: "topk T ad ls ?c = Inr tk" by blast
  have "ls \<noteq> []" using v by auto
  from argmax_choice [OF this, of T ad ?c None None] obtain ch where
    ch: "choose_token T ad ls (ascii ''argmax'') ?c None None = Inr ch" by blast
  have ne: "ascii ''argmax'' \<noteq> ascii ''stochastic''" by (simp add: ascii_def)
  show ?thesis
    using k l m fw tk ch ne
    by (simp add: step_def Let_def MAX_PAYLOAD_SIZE_def TOP_K_MIN_def TOP_K_MAX_def)
qed

lemma wide_step_returns:
  assumes "1 \<le> k"
  shows "\<exists>resp. fst (step (torch_low_first d) (Some wide_adapter)
                   (sample_request [72, 105] k (ascii ''argmax''))) = Response resp"
proof (rule step_argmax_returns [OF low_first_torch_ok, where ls = "replicate 40 0"])
  show "1 \<le> top_k (sample_request [72, 105] k (ascii ''argmax''))"
    using assms by (simp add: sample_request_def)
  show "length (context_text (sample_request [72, 105] k (ascii ''argmax''))) \<le> 50000"
    by (simp add: sample_request_def)
  show "mode (sample_request [72, 105] k (ascii ''argmax'')) = ascii ''argmax''"
    by (simp add: sample_request_def)
  show "fst (forward_last wide_adapter
               (fst (tokenize wide_adapter
                  (context_text (sample_request [72, 105] k (ascii ''argmax'')))))
               (soften_newline_eot (sample_request [72, 105] k (ascii ''argmax'')) = Some True))
          = Inr (replicate 40 0)"
    by (simp add: sample_request_def forward_last_plain wide_adapter_def)
  show "nat (max 5 (min 30 (top_k (sample_request [72, 105] k (ascii ''argmax'')))))
          \<le> length (replicate 40 (0 :: real))"
    by simp
qed

lemma next_dist_Response_parts:
  assumes "fst (next_dist T (Some ad) q) = Response resp"
  shows "\<exists>tk. topk T ad (model_last_logits ad (fst (tokenize ad (nd_context_text q))))
                 (max 5 (min 30 (nd_top_k q))) = Inr tk \<and>
              resp_topk resp = map TokenInfoModel tk \<and>
              coverage_topk resp = sum_list (map prob tk)"
  using assms
  by (auto simp: next_dist_def Let_def handle_exception_def TOP_K_MIN_def TOP_K_MAX_def
      forward_last_plain split: if_splits sum.splits)

lemma next_dist_returns:
  assumes ok: "topk_select_ok (topk_select T)"
      and k: "1 \<le> nd_top_k q" and l: "length (nd_context_text q) \<le> 50000"
      and v: "nat (max 5 (min 30 (nd_top_k q)))
                \<le> length (model_last_logits ad (fst (tokenize ad (nd_context_text q))))"
  shows "\<exists>resp. next_dist T (Some ad) q = (Response resp, [fst (tokenize ad (nd_context_text q))])"
proof -
  let ?L = "model_last_logits ad (fst (tokenize ad (nd_context_text q)))"
  let ?c = "max 5 (min 30 (nd_top_k q))"
  have v': "nat (max 5 (min 30 ?c)) \<le> length ?L" using v by (simp only: clamp_idem)
  from topk_shape [OF ok v', of ad] obtain tk where tk: "topk T ad ?L ?c = Inr tk" by blast
  show ?thesis
    using k l tk
    by (simp add: next_dist_def Let_def forward_last_plain MAX_PAYLOAD_SIZE_def TOP_K_MIN_def
        TOP_K_MAX_def)
qed

subsection \<open>Request validation\<close>

text \<open>
  The body of the handler \<open>step\<close>, on a request taken as it is: it answers \<open>top_k < 1\<close>,
  and a context of more than 50000 characters, by a \<^verbatim>\<open>JSONResponse\<close> of status 400 whose
  dictionary has a message and a hint, without a call of the Scorer. With a mode other
  than \<^verbatim>\<open>argmax\<close> and \<^verbatim>\<open>stochastic\<close>, \<open>choose\<close> raises \<^verbatim>\<open>ValueError\<close>, and \<open>step\<close> answers an
  error dictionary, never a response.
\<close>

lemma step_handler_rejections:
  "(top_k r < 1 \<longrightarrow>
      step T (Some ad) r =
        (JSONResponse 400 (error_content (ascii ''top_k must be a positive integer'')
           (ascii ''Provide a top_k value between 1 and 30 (will be clamped to [5, 30])'')), []))
   \<and> (1 \<le> top_k r \<and> length (context_text r) > 50000 \<longrightarrow>
      step T (Some ad) r =
        (JSONResponse 400 (error_content (ascii ''Input too large (max 50000 characters)'')
           (ascii ''Reduce the size of your context_text input'')), []))
   \<and> (top_k r < 1 \<or> length (context_text r) > 50000 \<longrightarrow>
      (\<exists>code m h. step T ado r = (JSONResponse code (error_content m h), [])))
   \<and> (mode r \<noteq> ascii ''argmax'' \<and> mode r \<noteq> ascii ''stochastic'' \<longrightarrow>
      choose_token T ad logits (mode r) k t p
        = Inl (ValueError (ascii ''Unsupported mode: '' @ mode r)) \<and>
      (\<exists>code m h. fst (step T ado r) = JSONResponse code (error_content m h)) \<and>
      (\<forall>ls tk. fst (forward_last ad (fst (tokenize ad (context_text r)))
                     (soften_newline_eot r = Some True)) = Inr ls \<and>
               topk T ad ls (max 5 (min 30 (top_k r))) = Inr tk \<and>
               1 \<le> top_k r \<and> length (context_text r) \<le> 50000 \<longrightarrow>
         fst (step T (Some ad) r) =
           JSONResponse 400 (error_content (ascii ''Unsupported mode: '' @ mode r)
             (ascii ''Check your input parameters''))))"
proof (intro conjI impI)
  show "top_k r < 1 \<Longrightarrow> step T (Some ad) r =
        (JSONResponse 400 (error_content (ascii ''top_k must be a positive integer'')
           (ascii ''Provide a top_k value between 1 and 30 (will be clamped to [5, 30])'')), [])"
    by (simp add: step_def)
  show "1 \<le> top_k r \<and> length (context_text r) > 50000 \<Longrightarrow> step T (Some ad) r =
        (JSONResponse 400 (error_content (ascii ''Input too large (max 50000 characters)'')
           (ascii ''Reduce the size of your context_text input'')), [])"
    by (simp add: step_def MAX_PAYLOAD_SIZE_def)
  show "top_k r < 1 \<or> length (context_text r) > 50000 \<Longrightarrow>
      \<exists>code m h. step T ado r = (JSONResponse code (error_content m h), [])"
    by (cases ado) (auto simp: step_def MAX_PAYLOAD_SIZE_def)
next
  assume m: "mode r \<noteq> ascii ''argmax'' \<and> mode r \<noteq> ascii ''stochastic''"
  then show "choose_token T ad logits (mode r) k t p
        = Inl (ValueError (ascii ''Unsupported mode: '' @ mode r))"
    by (simp add: unsupported_mode_raises)
  show "\<exists>code m h. fst (step T ado r) = JSONResponse code (error_content m h)"
  proof (cases ado)
    case None
    then show ?thesis by (auto simp: step_def)
  next
    case (Some a)
    have H: "\<And>e. \<exists>code m h.
        (handle_exception e :: step_response http_response) = JSONResponse code (error_content m h)"
      by (rule handle_exception_is_error)
    show ?thesis
    proof (cases "top_k r < 1")
      case True
      then show ?thesis by (auto simp: Some step_def)
    next
      case k: False
      show ?thesis
      proof (cases "length (context_text r) > MAX_PAYLOAD_SIZE")
        case True
        with k show ?thesis by (auto simp: Some step_def)
      next
        case l: False
        show ?thesis
        proof (cases "fst (forward_last a (fst (tokenize a (context_text r)))
                        (soften_newline_eot r = Some True))")
          case (Inl e)
          with k l H [of e] show ?thesis by (simp add: Some step_def Let_def)
        next
          case (Inr ls)
          show ?thesis
          proof (cases "topk T a ls (max TOP_K_MIN (min TOP_K_MAX (top_k r)))")
            case (Inl e)
            with k l Inr H [of e] show ?thesis by (simp add: Some step_def Let_def)
          next
            case tk: (Inr tk)
            with k l Inr m H [of "ValueError (ascii ''Unsupported mode: '' @ mode r)"]
            show ?thesis
              by (simp add: Some step_def Let_def unsupported_mode_raises)
          qed
        qed
      qed
    qed
  qed
  show "\<forall>ls tk. fst (forward_last ad (fst (tokenize ad (context_text r)))
                     (soften_newline_eot r = Some True)) = Inr ls \<and>
               topk T ad ls (max 5 (min 30 (top_k r))) = Inr tk \<and>
               1 \<le> top_k r \<and> length (context_text r) \<le> 50000 \<longrightarrow>
         fst (step T (Some ad) r) =
           JSONResponse 400 (error_content (ascii ''Unsupported mode: '' @ mode r)
             (ascii ''Check your input parameters''))"
    using m
    by (simp add: step_def Let_def unsupported_mode_raises handle_exception_def
        MAX_PAYLOAD_SIZE_def TOP_K_MIN_def TOP_K_MAX_def)
qed

lemma step_handler_rejections_sample:
  "top_k (sample_request [72, 105] 0 (ascii ''argmax'')) < 1 \<and>
   step (torch_low_first (\<lambda>ps. 0)) (Some sample_adapter) (sample_request [72, 105] 0 (ascii ''argmax''))
     = (JSONResponse 400 (error_content (ascii ''top_k must be a positive integer'')
          (ascii ''Provide a top_k value between 1 and 30 (will be clamped to [5, 30])'')), []) \<and>
   1 \<le> top_k (sample_request (replicate 50001 120) 10 (ascii ''argmax'')) \<and>
   length (context_text (sample_request (replicate 50001 120) 10 (ascii ''argmax''))) > 50000 \<and>
   step (torch_low_first (\<lambda>ps. 0)) (Some sample_adapter)
       (sample_request (replicate 50001 120) 10 (ascii ''argmax''))
     = (JSONResponse 400 (error_content (ascii ''Input too large (max 50000 characters)'')
          (ascii ''Reduce the size of your context_text input'')), []) \<and>
   mode (sample_request [72, 105] 5 (ascii ''greedy'')) \<noteq> ascii ''argmax'' \<and>
   mode (sample_request [72, 105] 5 (ascii ''greedy'')) \<noteq> ascii ''stochastic'' \<and>
   choose_token (torch_low_first (\<lambda>ps. 0)) sample_adapter [0, 0, 0, 0, 0, 0] (ascii ''greedy'') 5
       None None = Inl (ValueError (ascii ''Unsupported mode: greedy'')) \<and>
   fst (step (torch_low_first (\<lambda>ps. 0)) (Some sample_adapter)
         (sample_request [72, 105] 5 (ascii ''greedy'')))
     = JSONResponse 400 (error_content (ascii ''Unsupported mode: greedy'')
         (ascii ''Check your input parameters''))"
proof -
  let ?T = "torch_low_first (\<lambda>ps. 0)"
  let ?r0 = "sample_request [72, 105] 0 (ascii ''argmax'')"
  let ?r1 = "sample_request (replicate 50001 120) 10 (ascii ''argmax'')"
  let ?r2 = "sample_request [72, 105] 5 (ascii ''greedy'')"
  have h0: "top_k ?r0 < 1" by (simp add: sample_request_def)
  have h1: "1 \<le> top_k ?r1 \<and> length (context_text ?r1) > 50000"
    by (simp add: sample_request_def)
  have h2: "mode ?r2 \<noteq> ascii ''argmax'' \<and> mode ?r2 \<noteq> ascii ''stochastic''"
    by (simp add: sample_request_def ascii_def)
  have m2: "mode ?r2 = ascii ''greedy''" by (simp add: sample_request_def)
  have cat: "ascii ''Unsupported mode: '' @ ascii ''greedy'' = ascii ''Unsupported mode: greedy''"
    by (simp add: ascii_def)
  have fw: "fst (forward_last sample_adapter (fst (tokenize sample_adapter (context_text ?r2)))
                  (soften_newline_eot ?r2 = Some True)) = Inr [0, 0, 0, 0, 0, 0]"
    by (simp add: forward_last_def sample_adapter_def sample_request_def)
  have tk: "topk ?T sample_adapter [0, 0, 0, 0, 0, 0] (max 5 (min 30 (top_k ?r2)))
              = Inr (map (topk_entry sample_adapter)
                      [(- ln 6, 0), (- ln 6, 1), (- ln 6, 2), (- ln 6, 3), (- ln 6, 4)])"
    by (simp add: sample_request_def topk_low_zeros6)
  have r2ok: "1 \<le> top_k ?r2 \<and> length (context_text ?r2) \<le> 50000"
    by (simp add: sample_request_def)
  note W0 = step_handler_rejections [of ?r0 ?T sample_adapter "Some sample_adapter"
      "[0, 0, 0, 0, 0, 0]" 5 None None]
  note W1 = step_handler_rejections [of ?r1 ?T sample_adapter "Some sample_adapter"
      "[0, 0, 0, 0, 0, 0]" 5 None None]
  note W2 = step_handler_rejections [of ?r2 ?T sample_adapter "Some sample_adapter"
      "[0, 0, 0, 0, 0, 0]" 5 None None]
  have a: "step ?T (Some sample_adapter) ?r0
     = (JSONResponse 400 (error_content (ascii ''top_k must be a positive integer'')
          (ascii ''Provide a top_k value between 1 and 30 (will be clamped to [5, 30])'')), [])"
    using W0 h0 by blast
  have b: "step ?T (Some sample_adapter) ?r1
     = (JSONResponse 400 (error_content (ascii ''Input too large (max 50000 characters)'')
          (ascii ''Reduce the size of your context_text input'')), [])"
    using W1 h1 by blast
  have c: "choose_token ?T sample_adapter [0, 0, 0, 0, 0, 0] (ascii ''greedy'') 5 None None
             = Inl (ValueError (ascii ''Unsupported mode: greedy''))"
    using W2 h2 unfolding m2 cat by blast
  have d: "fst (step ?T (Some sample_adapter) ?r2)
     = JSONResponse 400 (error_content (ascii ''Unsupported mode: greedy'')
         (ascii ''Check your input parameters''))"
    using W2 h2 fw tk r2ok unfolding m2 cat by blast
  show ?thesis
    using h0 h1 h2 a b c d by blast
qed

text \<open>
  A request that passes the request model passes both checks of the handler: its two
  rejections with message and hint are never reached on the served route.
\<close>

lemma valid_request_passes_handler_checks:
  assumes "step_request_valid r"
  shows "\<not> top_k r < 1" and "\<not> length (context_text r) > MAX_PAYLOAD_SIZE"
    and "post_step detail T adapter_opt r = step T adapter_opt r"
  using assms by (simp_all add: step_request_valid_def post_step_def)

lemma post_step_answers_no_message_and_hint:
  assumes "\<not> step_request_valid r"
  shows "post_step detail T adapter_opt r = (JSONResponse 422 [(''detail'', detail r)], [])"
  using assms by (simp add: post_step_def)

text \<open>
  C7. On the served route \<^verbatim>\<open>POST /step\<close>, a request with \<open>top_k = 0\<close>, and one with a context
  of 60000 characters, are rejected without a call of the Scorer, but by the request
  model: the answer has status 422 and the dictionary has the one key \<^verbatim>\<open>detail\<close>, no
  message and no hint. The handler, given the same requests, would answer status 400
  with a message and a hint. A request with the mode \<^verbatim>\<open>greedy\<close> is rejected by the request
  model too.
\<close>

theorem served_step_rejects_without_message_and_hint:
  "post_step detail T (Some ad) (sample_request [72, 105] 0 (ascii ''argmax''))
     = (JSONResponse 422 [(''detail'', detail (sample_request [72, 105] 0 (ascii ''argmax'')))],
        []) \<and>
   post_step detail T (Some ad) (sample_request (replicate 60000 120) 10 (ascii ''argmax''))
     = (JSONResponse 422
          [(''detail'', detail (sample_request (replicate 60000 120) 10 (ascii ''argmax'')))],
        []) \<and>
   map_of [(''detail'', x :: ustr)] ''message'' = None \<and>
   map_of [(''detail'', x :: ustr)] ''hint'' = None \<and>
   step T (Some ad) (sample_request [72, 105] 0 (ascii ''argmax''))
     = (JSONResponse 400 (error_content (ascii ''top_k must be a positive integer'')
          (ascii ''Provide a top_k value between 1 and 30 (will be clamped to [5, 30])'')), []) \<and>
   step T (Some ad) (sample_request (replicate 60000 120) 10 (ascii ''argmax''))
     = (JSONResponse 400 (error_content (ascii ''Input too large (max 50000 characters)'')
          (ascii ''Reduce the size of your context_text input'')), []) \<and>
   map_of (error_content m h) ''message'' = Some m \<and>
   map_of (error_content m h) ''hint'' = Some h \<and>
   post_step detail T (Some ad) (sample_request [72, 105] 5 (ascii ''greedy''))
     = (JSONResponse 422 [(''detail'', detail (sample_request [72, 105] 5 (ascii ''greedy'')))],
        [])"
proof -
  let ?r0 = "sample_request [72, 105] 0 (ascii ''argmax'')"
  let ?r1 = "sample_request (replicate 60000 120) 10 (ascii ''argmax'')"
  let ?r2 = "sample_request [72, 105] 5 (ascii ''greedy'')"
  have i0: "\<not> step_request_valid ?r0"
    by (simp add: step_request_valid_def sample_request_def)
  have i1: "\<not> step_request_valid ?r1"
    by (simp add: step_request_valid_def sample_request_def MAX_PAYLOAD_SIZE_def)
  have i2: "\<not> step_request_valid ?r2"
    by (simp add: step_request_valid_def sample_request_def ascii_def)
  have a: "post_step detail T (Some ad) ?r0 = (JSONResponse 422 [(''detail'', detail ?r0)], [])"
    using i0 by (rule post_step_answers_no_message_and_hint)
  have b: "post_step detail T (Some ad) ?r1 = (JSONResponse 422 [(''detail'', detail ?r1)], [])"
    using i1 by (rule post_step_answers_no_message_and_hint)
  have c: "post_step detail T (Some ad) ?r2 = (JSONResponse 422 [(''detail'', detail ?r2)], [])"
    using i2 by (rule post_step_answers_no_message_and_hint)
  have k: "map_of [(''detail'', x)] ''message'' = None" "map_of [(''detail'', x)] ''hint'' = None"
    by simp_all
  have d: "step T (Some ad) ?r0
     = (JSONResponse 400 (error_content (ascii ''top_k must be a positive integer'')
          (ascii ''Provide a top_k value between 1 and 30 (will be clamped to [5, 30])'')), [])"
    by (simp add: step_def sample_request_def)
  have e: "step T (Some ad) ?r1
     = (JSONResponse 400 (error_content (ascii ''Input too large (max 50000 characters)'')
          (ascii ''Reduce the size of your context_text input'')), [])"
    by (simp add: step_def sample_request_def MAX_PAYLOAD_SIZE_def)
  have f: "map_of (error_content m h) ''message'' = Some m"
          "map_of (error_content m h) ''hint'' = Some h"
    by (simp_all add: error_content_def)
  show ?thesis
    by (intro conjI) (fact a b c k d e f)+
qed

subsection \<open>The merge of the chosen token into the ranking\<close>

text \<open>
  C2. In a response of \<open>step\<close>, the id of the chosen token is among the ids of the
  ranking, and the ranking has exactly \<open>used_top_k\<close> entries, the clamped \<open>top_k\<close>. The
  ranking is the result of \<open>topk\<close> when the chosen id is in it, and otherwise the
  chosen token followed by that result without its last entry; nothing sorts it again.
\<close>

theorem merge_keeps_chosen_and_length:
  assumes "topk_select_ok (topk_select T)"
      and "fst (step T (Some ad) r) = Response resp"
  shows "tm_token_id (chosen resp) \<in> set (map tm_token_id (resp_topk resp)) \<and>
         int (length (resp_topk resp)) = used_top_k resp \<and>
         used_top_k resp = max 5 (min 30 (top_k r)) \<and>
         (\<exists>ls tk ch.
            fst (forward_last ad (fst (tokenize ad (context_text r)))
                   (soften_newline_eot r = Some True)) = Inr ls \<and>
            topk T ad ls (max 5 (min 30 (top_k r))) = Inr tk \<and>
            choose_token T ad ls (mode r) (max 5 (min 30 (top_k r)))
              (if mode r = ascii ''stochastic'' then temperature r else None)
              (if mode r = ascii ''stochastic'' then top_p r else None) = Inr ch \<and>
            chosen resp = TokenInfoModel ch \<and>
            resp_topk resp =
              map TokenInfoModel (if token_id ch \<in> set (map token_id tk) then tk
                                  else ch # butlast tk))"
  using step_ranking [OF assms] by metis

lemma sample_step_high:
  "fst (step (torch_high_first d) (Some sample_adapter)
          (sample_request [72, 105] 5 (ascii ''argmax''))) =
   Response
     \<lparr>contract_version = CONTRACT_VERSION, context_len_tokens = 2,
      resp_topk = map TokenInfoModel
        (chosen_entry sample_adapter 0 (exp (- ln 6)) (- ln 6) #
         map (topk_entry sample_adapter) [(- ln 6, 5), (- ln 6, 4), (- ln 6, 3), (- ln 6, 2)]),
      coverage_topk = 5 / 6,
      last_token_id = Some 105, last_token_text = Some [105],
      resp_model_info = \<lparr>provider = ascii ''hf-local'', mi_model_name = ascii ''sample'',
                          mi_vocab_size = 6\<rparr>,
      chosen = TokenInfoModel (chosen_entry sample_adapter 0 (exp (- ln 6)) (- ln 6)),
      append_text = [0], used_top_k = 5\<rparr>"
proof -
  have ne: "ascii ''argmax'' \<noteq> ascii ''stochastic''" by (simp add: ascii_def)
  have fw: "forward_last sample_adapter ids False = (Inr [0, 0, 0, 0, 0, 0], [ids])" for ids
    by (simp add: forward_last_def sample_adapter_def)
  have tz: "tokenize sample_adapter [72, 105] = ([72, 105], [[72], [105]])"
    by (simp add: tokenize_def sample_adapter_def CONTEXT_CAP_TOKENS_def)
  have fields: "model_name sample_adapter = ascii ''sample''" "vocab_size sample_adapter = 6"
      "tok_decode sample_adapter i = [i]" for i
    by (simp_all add: sample_adapter_def)
  show ?thesis
    using ne
    by (simp add: step_def sample_request_def Let_def MAX_PAYLOAD_SIZE_def TOP_K_MIN_def
        TOP_K_MAX_def fw tz topk_high_zeros6 argmax_zeros6 ensure_chosen_in_topk_def
        topk_entry_def chosen_entry_def last_or_none_def exp_minus exp_ln fields)
qed

theorem merge_keeps_chosen_and_length_witness:
  "topk_select_ok (topk_select (torch_high_first (\<lambda>ps. 0))) \<and>
   (\<exists>resp. fst (step (torch_high_first (\<lambda>ps. 0)) (Some sample_adapter)
                  (sample_request [72, 105] 5 (ascii ''argmax''))) = Response resp \<and>
           map tm_token_id (resp_topk resp) = [0, 5, 4, 3, 2] \<and>
           tm_token_id (chosen resp) = 0 \<and>
           tm_token_id (chosen resp) \<in> set (map tm_token_id (resp_topk resp)) \<and>
           int (length (resp_topk resp)) = used_top_k resp \<and>
           used_top_k resp = 5)"
proof -
  let ?T = "torch_high_first (\<lambda>ps. 0)"
  let ?r = "sample_request [72, 105] 5 (ascii ''argmax'')"
  obtain resp where st: "fst (step ?T (Some sample_adapter) ?r) = Response resp"
    using sample_step_high [of "\<lambda>ps. 0"] by simp
  have ids: "map tm_token_id (resp_topk resp) = [0, 5, 4, 3, 2]"
    and ch: "tm_token_id (chosen resp) = 0"
    using st unfolding sample_step_high
    by (auto simp: TokenInfoModel_def topk_entry_def chosen_entry_def Let_def)
  have k: "top_k ?r = 5" by (simp add: sample_request_def)
  have ok: "topk_select_ok (topk_select ?T)" by (rule high_first_torch_ok)
  from merge_keeps_chosen_and_length [OF ok st]
  have m: "tm_token_id (chosen resp) \<in> set (map tm_token_id (resp_topk resp))"
       "int (length (resp_topk resp)) = used_top_k resp" "used_top_k resp = 5"
    unfolding k by simp_all
  show ?thesis
    by (intro conjI exI [of _ resp]) (fact ok st ids ch m)+
qed

subsection \<open>Shape of the ranking\<close>

text \<open>
  C4 (as amended). For a logit vector with at least \<open>clamp(k)\<close> entries, \<open>clamp(k) = max 5
  (min 30 k)\<close>, \<open>topk\<close> returns exactly \<open>clamp(k)\<close> entries, in descending (not necessarily
  strictly descending) order of probability, with no id twice; a response of \<open>step\<close>
  reports that clamped value as \<open>used_top_k\<close> and carries that many entries; the bounds of
  the adapter and of the handlers are the same.
\<close>

theorem topk_ranking_shape:
  assumes "topk_select_ok (topk_select T)"
      and "nat (max 5 (min 30 k)) \<le> length logits"
  shows "(\<exists>rk. topk T ad logits k = Inr rk \<and> int (length rk) = max 5 (min 30 k) \<and>
               sorted_wrt (\<lambda>a b. a \<ge> b) (map prob rk) \<and> distinct (map token_id rk)) \<and>
         (\<forall>resp. fst (step T (Some ad) r) = Response resp \<longrightarrow>
            used_top_k resp = max 5 (min 30 (top_k r)) \<and>
            int (length (resp_topk resp)) = used_top_k resp) \<and>
         HF_TOP_K_MIN = TOP_K_MIN \<and> HF_TOP_K_MAX = TOP_K_MAX \<and>
         max HF_TOP_K_MIN (min HF_TOP_K_MAX k) = max TOP_K_MIN (min TOP_K_MAX k)"
proof -
  have a: "\<exists>rk. topk T ad logits k = Inr rk \<and> int (length rk) = max 5 (min 30 k) \<and>
               sorted_wrt (\<lambda>a b. a \<ge> b) (map prob rk) \<and> distinct (map token_id rk)"
    using topk_shape [OF assms, of ad] by blast
  have b: "\<forall>resp. fst (step T (Some ad) r) = Response resp \<longrightarrow>
            used_top_k resp = max 5 (min 30 (top_k r)) \<and>
            int (length (resp_topk resp)) = used_top_k resp"
    using step_ranking [OF assms(1), of ad r] by metis
  have c: "HF_TOP_K_MIN = TOP_K_MIN \<and> HF_TOP_K_MAX = TOP_K_MAX \<and>
         max HF_TOP_K_MIN (min HF_TOP_K_MAX k) = max TOP_K_MIN (min TOP_K_MAX k)"
    by (simp add: HF_TOP_K_MIN_def HF_TOP_K_MAX_def TOP_K_MIN_def TOP_K_MAX_def)
  from a b c show ?thesis by blast
qed

theorem topk_ranking_shape_witness:
  "topk_select_ok (topk_select (torch_low_first (\<lambda>ps. 0))) \<and>
   nat (max 5 (min 30 3)) \<le> length (replicate 40 (0 :: real)) \<and>
   nat (max 5 (min 30 50)) \<le> length (replicate 40 (0 :: real)) \<and>
   (\<exists>rk. topk (torch_low_first (\<lambda>ps. 0)) wide_adapter (replicate 40 0) 3 = Inr rk \<and>
         length rk = 5 \<and> sorted_wrt (\<lambda>a b. a \<ge> b) (map prob rk) \<and> distinct (map token_id rk)) \<and>
   (\<exists>rk. topk (torch_low_first (\<lambda>ps. 0)) wide_adapter (replicate 40 0) 50 = Inr rk \<and>
         length rk = 30 \<and> sorted_wrt (\<lambda>a b. a \<ge> b) (map prob rk) \<and> distinct (map token_id rk)) \<and>
   (\<exists>resp. fst (step (torch_low_first (\<lambda>ps. 0)) (Some wide_adapter)
                  (sample_request [72, 105] 3 (ascii ''argmax''))) = Response resp \<and>
           used_top_k resp = 5 \<and> length (resp_topk resp) = 5) \<and>
   (\<exists>resp. fst (step (torch_low_first (\<lambda>ps. 0)) (Some wide_adapter)
                  (sample_request [72, 105] 50 (ascii ''argmax''))) = Response resp \<and>
           used_top_k resp = 30 \<and> length (resp_topk resp) = 30)"
proof -
  let ?T = "torch_low_first (\<lambda>ps. 0)"
  have ok: "topk_select_ok (topk_select ?T)" by (rule low_first_torch_ok)
  have s3: "nat (max 5 (min 30 3)) \<le> length (replicate 40 (0 :: real))" by simp
  have s50: "nat (max 5 (min 30 50)) \<le> length (replicate 40 (0 :: real))" by simp
  note A = topk_ranking_shape [OF ok s3, of wide_adapter "sample_request [72, 105] 3 (ascii ''argmax'')"]
  note B = topk_ranking_shape [OF ok s50, of wide_adapter "sample_request [72, 105] 50 (ascii ''argmax'')"]
  have a: "\<exists>rk. topk ?T wide_adapter (replicate 40 0) 3 = Inr rk \<and>
         length rk = 5 \<and> sorted_wrt (\<lambda>a b. a \<ge> b) (map prob rk) \<and> distinct (map token_id rk)"
    using A by auto
  have b: "\<exists>rk. topk ?T wide_adapter (replicate 40 0) 50 = Inr rk \<and>
         length rk = 30 \<and> sorted_wrt (\<lambda>a b. a \<ge> b) (map prob rk) \<and> distinct (map token_id rk)"
    using B by auto
  obtain r3 where r3: "fst (step ?T (Some wide_adapter)
                  (sample_request [72, 105] 3 (ascii ''argmax''))) = Response r3"
    using wide_step_returns [of 3] by auto
  obtain r50 where r50: "fst (step ?T (Some wide_adapter)
                  (sample_request [72, 105] 50 (ascii ''argmax''))) = Response r50"
    using wide_step_returns [of 50] by auto
  have c: "used_top_k r3 = 5 \<and> length (resp_topk r3) = 5"
    using A r3 by (auto simp: sample_request_def)
  have d: "used_top_k r50 = 30 \<and> length (resp_topk r50) = 30"
    using B r50 by (auto simp: sample_request_def)
  show ?thesis
    using ok s3 s50 a b r3 c r50 d by blast
qed

text \<open>
  On six equal logits the five probabilities of the ranking are all \<open>1/6\<close>: the ranking
  is not strictly descending. On three logits \<^verbatim>\<open>torch.topk\<close> raises.
\<close>

theorem topk_ranking_shape_counterexample:
  "topk (torch_low_first (\<lambda>ps. 0)) sample_adapter [0, 0, 0, 0, 0, 0] 5
     = Inr (map (topk_entry sample_adapter)
              [(- ln 6, 0), (- ln 6, 1), (- ln 6, 2), (- ln 6, 3), (- ln 6, 4)]) \<and>
   map prob (map (topk_entry sample_adapter)
               [(- ln 6, 0), (- ln 6, 1), (- ln 6, 2), (- ln 6, 3), (- ln 6, 4)])
     = [1 / 6, 1 / 6, 1 / 6, 1 / 6, 1 / 6] \<and>
   \<not> sorted_wrt (\<lambda>a b. a > b) [1 / 6, 1 / 6, 1 / 6, 1 / 6, 1 / 6 :: real] \<and>
   topk (torch_low_first (\<lambda>ps. 0)) sample_adapter [0, 0, 0] 5
     = Inl (RuntimeError (ascii ''selected index k out of range''))"
proof -
  have e: "exp (- ln 6) = (1 / 6 :: real)" by (simp add: exp_minus inverse_eq_divide)
  have a: "map prob (map (topk_entry sample_adapter)
             [(- ln 6, 0), (- ln 6, 1), (- ln 6, 2), (- ln 6, 3), (- ln 6, 4)])
           = [1 / 6, 1 / 6, 1 / 6, 1 / 6, 1 / 6]"
    by (simp add: topk_entry_fields e)
  have b: "\<not> sorted_wrt (\<lambda>a b. a > b) [1 / 6, 1 / 6, 1 / 6, 1 / 6, 1 / 6 :: real]"
  proof
    assume "sorted_wrt (\<lambda>a b. a > b) [1 / 6, 1 / 6, 1 / 6, 1 / 6, 1 / 6 :: real]"
    then have "\<forall>y \<in> set [1 / 6, 1 / 6, 1 / 6, 1 / 6 :: real]. 1 / 6 > y"
      by (simp only: sorted_wrt.simps) blast
    then have "(1 / 6 :: real) > 1 / 6" by (simp only: list.set) blast
    then show False by simp
  qed
  have c: "topk (torch_low_first (\<lambda>ps. 0)) sample_adapter [0, 0, 0] 5
     = Inl (RuntimeError (ascii ''selected index k out of range''))"
    by (simp add: topk_def torch_topk_def log_softmax_def HF_TOP_K_MIN_def HF_TOP_K_MAX_def)
  show ?thesis
    by (intro conjI) (fact topk_low_zeros6 a b c)+
qed

subsection \<open>Order of the ranking among equal entries\<close>

text \<open>
  C5 (as amended). The ranking is a function of the logits, \<open>k\<close> and the selection of
  the library, and lists the ids in exactly the order in which \<^verbatim>\<open>torch.topk\<close> returned
  them: the final sort is stable and its key is the probability alone, so which of two
  entries of equal log-probability comes first is what the library decided.
\<close>

theorem ranking_order_is_library_order:
  assumes "topk_select_ok (topk_select T)"
      and "nat (max 5 (min 30 k)) \<le> length logits"
  shows "\<exists>rk. topk T ad logits k = Inr rk \<and>
              map token_id rk = map snd (topk_select T (log_softmax logits) (nat (max 5 (min 30 k)))) \<and>
              map logprob rk = map fst (topk_select T (log_softmax logits) (nat (max 5 (min 30 k))))"
  using topk_shape [OF assms, of ad] by blast

theorem ranking_order_is_library_order_witness:
  "topk_select_ok (topk_select (torch_low_first (\<lambda>ps. 0))) \<and>
   nat (max 5 (min 30 5)) \<le> length [0, 0, 0, 0, 0, 0 :: real] \<and>
   (\<exists>rk. topk (torch_low_first (\<lambda>ps. 0)) sample_adapter [0, 0, 0, 0, 0, 0] 5 = Inr rk \<and>
         map token_id rk = [0, 1, 2, 3, 4] \<and>
         map token_id rk = map snd (topk_select (torch_low_first (\<lambda>ps. 0))
                                      (log_softmax [0, 0, 0, 0, 0, 0]) (nat (max 5 (min 30 5)))))"
proof -
  let ?T = "torch_low_first (\<lambda>ps. 0)"
  have ok: "topk_select_ok (topk_select ?T)" by (rule low_first_torch_ok)
  have sz: "nat (max 5 (min 30 5)) \<le> length [0, 0, 0, 0, 0, 0 :: real]" by simp
  from ranking_order_is_library_order [OF ok sz, of sample_adapter]
  obtain rk where rk: "topk ?T sample_adapter [0, 0, 0, 0, 0, 0] 5 = Inr rk"
    "map token_id rk = map snd (topk_select ?T (log_softmax [0, 0, 0, 0, 0, 0])
                                  (nat (max 5 (min 30 5))))"
    by blast
  have "map token_id rk = [0, 1, 2, 3, 4]"
    using rk(1) by (auto simp: topk_low_zeros6 topk_entry_fields)
  with ok sz rk show ?thesis
    by (intro conjI exI [of _ rk])
qed

text \<open>
  With a selection that meets the library's promise and puts the higher index first
  among equal values, the ranking of six equal logits lists the ids 5, 4, 3, 2, 1: of
  entries with equal log-probability, the larger id comes first.
\<close>

theorem tie_order_counterexample:
  "topk_select_ok (topk_select (torch_high_first (\<lambda>ps. 0))) \<and>
   topk (torch_high_first (\<lambda>ps. 0)) sample_adapter [0, 0, 0, 0, 0, 0] 5
     = Inr (map (topk_entry sample_adapter)
              [(- ln 6, 5), (- ln 6, 4), (- ln 6, 3), (- ln 6, 2), (- ln 6, 1)]) \<and>
   map token_id (map (topk_entry sample_adapter)
                   [(- ln 6, 5), (- ln 6, 4), (- ln 6, 3), (- ln 6, 2), (- ln 6, 1)])
     = [5, 4, 3, 2, 1] \<and>
   map logprob (map (topk_entry sample_adapter)
                  [(- ln 6, 5), (- ln 6, 4), (- ln 6, 3), (- ln 6, 2), (- ln 6, 1)])
     = [- ln 6, - ln 6, - ln 6, - ln 6, - ln 6]"
  by (intro conjI) (simp_all add: high_first_torch_ok topk_high_zeros6 topk_entry_fields)

subsection \<open>Effect of the soft bias\<close>

text \<open>
  C8. When the newline id and the end-of-text id, where defined, are indices of the
  logits, \<open>forward_last\<close> with the bias requested returns the logits of the model with 2
  subtracted at the newline id (the first id of the encoding of the newline, if any)
  and 2 subtracted at the end-of-text id (if defined), every other entry unchanged and
  every entry a finite number; without the request it returns the logits of the model.
  \<open>step\<close> ranks and chooses on what \<open>forward_last\<close> returned under the flag of the request,
  and \<open>next_dist\<close> ranks on the logits of the model as they are.
\<close>

theorem soft_bias_effect:
  assumes "nl = (case tok_encode ad [10] of [] \<Rightarrow> None | n # _ \<Rightarrow> Some n)"
      and "L = model_last_logits ad ids"
      and "\<forall>n. nl = Some n \<longrightarrow> n < length L"
      and "\<forall>e. eos_token_id ad = Some e \<longrightarrow> e < length L"
  shows "(\<exists>out. forward_last ad ids True = (Inr out, [ids]) \<and> length out = length L \<and>
            (\<forall>i < length L. out ! i = L ! i - (if nl = Some i then 2 else 0)
                                         - (if eos_token_id ad = Some i then 2 else 0))) \<and>
         forward_last ad ids False = (Inr L, [ids]) \<and>
         (\<forall>resp. fst (step T (Some ad) r) = Response resp \<longrightarrow>
            (\<exists>ls tk ch.
               fst (forward_last ad (fst (tokenize ad (context_text r)))
                      (soften_newline_eot r = Some True)) = Inr ls \<and>
               topk T ad ls (max 5 (min 30 (top_k r))) = Inr tk \<and>
               choose_token T ad ls (mode r) (max 5 (min 30 (top_k r)))
                 (if mode r = ascii ''stochastic'' then temperature r else None)
                 (if mode r = ascii ''stochastic'' then top_p r else None) = Inr ch \<and>
               chosen resp = TokenInfoModel ch)) \<and>
         (\<forall>resp. fst (next_dist T (Some ad) q) = Response resp \<longrightarrow>
            (\<exists>tk. topk T ad (model_last_logits ad (fst (tokenize ad (nd_context_text q))))
                     (max 5 (min 30 (nd_top_k q))) = Inr tk \<and>
                  resp_topk resp = map TokenInfoModel tk \<and>
                  coverage_topk resp = sum_list (map prob tk)))"
proof -
  have a: "\<exists>out. forward_last ad ids True = (Inr out, [ids]) \<and> length out = length L \<and>
            (\<forall>i < length L. out ! i = L ! i - (if nl = Some i then 2 else 0)
                                         - (if eos_token_id ad = Some i then 2 else 0))"
    using assms by (rule forward_last_soften)
  have b: "forward_last ad ids False = (Inr L, [ids])"
    using assms(2) by (simp add: forward_last_plain)
  have c: "\<forall>resp. fst (step T (Some ad) r) = Response resp \<longrightarrow>
            (\<exists>ls tk ch.
               fst (forward_last ad (fst (tokenize ad (context_text r)))
                      (soften_newline_eot r = Some True)) = Inr ls \<and>
               topk T ad ls (max 5 (min 30 (top_k r))) = Inr tk \<and>
               choose_token T ad ls (mode r) (max 5 (min 30 (top_k r)))
                 (if mode r = ascii ''stochastic'' then temperature r else None)
                 (if mode r = ascii ''stochastic'' then top_p r else None) = Inr ch \<and>
               chosen resp = TokenInfoModel ch)"
  proof (intro allI impI)
    fix resp assume "fst (step T (Some ad) r) = Response resp"
    from step_Response_parts [OF this]
    show "\<exists>ls tk ch.
               fst (forward_last ad (fst (tokenize ad (context_text r)))
                      (soften_newline_eot r = Some True)) = Inr ls \<and>
               topk T ad ls (max 5 (min 30 (top_k r))) = Inr tk \<and>
               choose_token T ad ls (mode r) (max 5 (min 30 (top_k r)))
                 (if mode r = ascii ''stochastic'' then temperature r else None)
                 (if mode r = ascii ''stochastic'' then top_p r else None) = Inr ch \<and>
               chosen resp = TokenInfoModel ch"
      by blast
  qed
  have d: "\<forall>resp. fst (next_dist T (Some ad) q) = Response resp \<longrightarrow>
            (\<exists>tk. topk T ad (model_last_logits ad (fst (tokenize ad (nd_context_text q))))
                     (max 5 (min 30 (nd_top_k q))) = Inr tk \<and>
                  resp_topk resp = map TokenInfoModel tk \<and>
                  coverage_topk resp = sum_list (map prob tk))"
    using next_dist_Response_parts by blast
  from a b c d show ?thesis by blast
qed

theorem soft_bias_effect_witness:
  "Some 10 = (case tok_encode wide_adapter [10] of [] \<Rightarrow> None | n # _ \<Rightarrow> Some n) \<and>
   replicate 40 0 = model_last_logits wide_adapter [72, 105] \<and>
   10 < length (replicate 40 (0 :: real)) \<and>
   eos_token_id wide_adapter = Some 0 \<and> 0 < length (replicate 40 (0 :: real)) \<and>
   (\<exists>out. forward_last wide_adapter [72, 105] True = (Inr out, [[72, 105]]) \<and>
          length out = 40 \<and> out ! 10 = - 2 \<and> out ! 0 = - 2 \<and> out ! 5 = 0 \<and>
          (\<exists>resp tk. fst (step (torch_low_first (\<lambda>ps. 0)) (Some wide_adapter)
                            ((sample_request [72, 105] 5 (ascii ''argmax''))
                               \<lparr>soften_newline_eot := Some True\<rparr>)) = Response resp \<and>
                     topk (torch_low_first (\<lambda>ps. 0)) wide_adapter out 5 = Inr tk)) \<and>
   forward_last wide_adapter [72, 105] False = (Inr (replicate 40 0), [[72, 105]]) \<and>
   (\<exists>resp tk. fst (next_dist (torch_low_first (\<lambda>ps. 0)) (Some wide_adapter)
                     \<lparr>nd_context_text = [72, 105], nd_top_k = 5\<rparr>) = Response resp \<and>
              topk (torch_low_first (\<lambda>ps. 0)) wide_adapter (replicate 40 0) 5 = Inr tk \<and>
              resp_topk resp = map TokenInfoModel tk)"
proof -
  let ?T = "torch_low_first (\<lambda>ps. 0)"
  let ?q = "\<lparr>nd_context_text = [72, 105], nd_top_k = 5\<rparr>"
  let ?r = "(sample_request [72, 105] 5 (ascii ''argmax''))\<lparr>soften_newline_eot := Some True\<rparr>"
  let ?L = "replicate 40 (0 :: real)"
  have h1: "Some 10 = (case tok_encode wide_adapter [10] of [] \<Rightarrow> None | n # _ \<Rightarrow> Some n)"
    by (simp add: wide_adapter_def)
  have h2: "?L = model_last_logits wide_adapter [72, 105]"
    by (simp add: wide_adapter_def)
  have e: "eos_token_id wide_adapter = Some 0" by (simp add: wide_adapter_def)
  have h3: "\<forall>n. Some 10 = Some n \<longrightarrow> n < length ?L" by simp
  have h4: "\<forall>e. eos_token_id wide_adapter = Some e \<longrightarrow> e < length ?L"
    by (simp add: e)
  note W = soft_bias_effect [OF h1 h2 h3 h4, of ?T ?r ?q]
  from W obtain out where out: "forward_last wide_adapter [72, 105] True = (Inr out, [[72, 105]])"
      "length out = length ?L"
      "\<forall>i < length ?L. out ! i = ?L ! i - (if Some 10 = Some i then 2 else 0)
                                       - (if eos_token_id wide_adapter = Some i then 2 else 0)"
    by blast
  have o10: "out ! 10 = - 2" using out(3) [rule_format, of 10] by (simp add: e)
  have o0: "out ! 0 = - 2" using out(3) [rule_format, of 0] by (simp add: e)
  have o5: "out ! 5 = 0" using out(3) [rule_format, of 5] by (simp add: e)
  have len: "length out = 40" using out(2) by simp
  have tz: "fst (tokenize wide_adapter (context_text ?r)) = [72, 105]"
    by (simp add: tokenize_def wide_adapter_def sample_request_def CONTEXT_CAP_TOKENS_def)
  have fw: "fst (forward_last wide_adapter (fst (tokenize wide_adapter (context_text ?r)))
                   (soften_newline_eot ?r = Some True)) = Inr out"
    unfolding tz using out(1) by (simp add: sample_request_def)
  have "\<exists>resp. fst (step ?T (Some wide_adapter) ?r) = Response resp"
  proof (rule step_argmax_returns [OF low_first_torch_ok _ _ _ fw])
    show "1 \<le> top_k ?r" by (simp add: sample_request_def)
    show "length (context_text ?r) \<le> 50000" by (simp add: sample_request_def)
    show "mode ?r = ascii ''argmax''" by (simp add: sample_request_def)
    show "nat (max 5 (min 30 (top_k ?r))) \<le> length out"
      using len by (simp add: sample_request_def)
  qed
  then obtain resp where resp: "fst (step ?T (Some wide_adapter) ?r) = Response resp" by blast
  from W resp fw obtain tk where tk: "topk ?T wide_adapter out (max 5 (min 30 (top_k ?r))) = Inr tk"
    by fastforce
  have tk5: "topk ?T wide_adapter out 5 = Inr tk"
    using tk by (simp add: sample_request_def)
  have a: "\<exists>out. forward_last wide_adapter [72, 105] True = (Inr out, [[72, 105]]) \<and>
          length out = 40 \<and> out ! 10 = - 2 \<and> out ! 0 = - 2 \<and> out ! 5 = 0 \<and>
          (\<exists>resp tk. fst (step ?T (Some wide_adapter) ?r) = Response resp \<and>
                     topk ?T wide_adapter out 5 = Inr tk)"
    using out(1) len o10 o0 o5 resp tk5 by (intro exI [of _ out] conjI) auto
  have b: "forward_last wide_adapter [72, 105] False = (Inr ?L, [[72, 105]])"
    using W by blast
  have sz: "nat (max 5 (min 30 (nd_top_k ?q)))
              \<le> length (model_last_logits wide_adapter
                    (fst (tokenize wide_adapter (nd_context_text ?q))))"
    by (simp add: wide_adapter_def)
  from next_dist_returns [OF low_first_torch_ok _ _ sz, of "\<lambda>ps. 0"]
  obtain nresp where nresp: "fst (next_dist ?T (Some wide_adapter) ?q) = Response nresp"
    by fastforce
  have ml: "model_last_logits wide_adapter (fst (tokenize wide_adapter (nd_context_text ?q))) = ?L"
    by (simp add: wide_adapter_def)
  from W nresp obtain ntk where ntk:
    "topk ?T wide_adapter ?L (max 5 (min 30 (nd_top_k ?q))) = Inr ntk"
    "resp_topk nresp = map TokenInfoModel ntk"
    unfolding ml by blast
  have c: "\<exists>resp tk. fst (next_dist ?T (Some wide_adapter) ?q) = Response resp \<and>
              topk ?T wide_adapter ?L 5 = Inr tk \<and> resp_topk resp = map TokenInfoModel tk"
    using nresp ntk by (intro exI [of _ nresp] exI [of _ ntk]) simp
  have l10: "10 < length ?L" and l0: "0 < length ?L" by simp_all
  show ?thesis
    by (intro conjI) (fact h1 h2 l10 e l0 a b c)+
qed

end
